theory Spec2Isabelle
  imports Main "HOL-Library.Word" "HOL-Library.AList"
begin

unbundle bit_operations_syntax

section \<open>JavaScript values used by the sources\<close>

text \<open>
  Strings are lists of characters, byte buffers are lists of 8-bit words. A value of type
  \<open>string | undefined\<close> (or \<open>string | null\<close>) is a \<open>string option\<close>. JavaScript treats
  \<open>undefined\<close>, \<open>null\<close> and the empty string as false in a condition; \<open>truthy\<close> is that test,
  and \<open>or_default\<close> is \<open>x || d\<close>.
\<close>

type_synonym bytes = "8 word list"

definition truthy :: "string option \<Rightarrow> bool" where
  "truthy v = (case v of None \<Rightarrow> False | Some s \<Rightarrow> s \<noteq> [])"

definition or_default :: "string option \<Rightarrow> string \<Rightarrow> string" where
  "or_default v d = (case v of None \<Rightarrow> d | Some s \<Rightarrow> if s = [] then d else s)"

text \<open>\<open>s.split(':')[0]\<close>: the part of \<open>s\<close> before the first colon.\<close>

definition split_colon_first :: "string \<Rightarrow> string" where
  "split_colon_first s = takeWhile (\<lambda>c. c \<noteq> CHR '':'') s"

text \<open>\<open>s.endsWith(t)\<close> and \<open>s.slice(0, -n)\<close> for a positive \<open>n\<close>.\<close>

definition endsWith :: "string \<Rightarrow> string \<Rightarrow> bool" where
  "endsWith s t = (length t \<le> length s \<and> drop (length s - length t) s = t)"

definition slice_off_end :: "string \<Rightarrow> nat \<Rightarrow> string" where
  "slice_off_end s n = take (length s - n) s"

text \<open>\<open>xs.join(sep)\<close>.\<close>

fun join :: "string \<Rightarrow> string list \<Rightarrow> string" where
  "join sep [] = []"
| "join sep [x] = x"
| "join sep (x # y # ys) = x @ sep @ join sep (y # ys)"

subsection \<open>Numbers and JSON text\<close>

definition digit_char :: "nat \<Rightarrow> char" where
  "digit_char d = char_of (48 + d)"

function show_nat :: "nat \<Rightarrow> string" where
  "show_nat n = (if n < 10 then [digit_char n] else show_nat (n div 10) @ [digit_char (n mod 10)])"
  by pat_completeness auto
termination
  by (relation "measure id") auto

definition show_int :: "int \<Rightarrow> string" where
  "show_int i = (if i < 0 then CHR ''-'' # show_nat (nat (- i)) else show_nat (nat i))"

definition dquote :: char where
  "dquote = CHR 0x22"

definition backslash :: char where
  "backslash = CHR 0x5C"

definition hex_char :: "nat \<Rightarrow> char" where
  "hex_char d = (if d < 10 then char_of (48 + d) else char_of (87 + d))"

text \<open>
  \<open>JSON.stringify\<close> on a string: the quotation mark, the backslash and the control
  characters are escaped, everything else is copied.
\<close>

definition json_escape :: "char \<Rightarrow> string" where
  "json_escape c =
     (let n = (of_char c :: nat) in
      if c = dquote then [backslash, dquote]
      else if c = backslash then [backslash, backslash]
      else if n = 8 then [backslash, CHR ''b'']
      else if n = 12 then [backslash, CHR ''f'']
      else if n = 10 then [backslash, CHR ''n'']
      else if n = 13 then [backslash, CHR ''r'']
      else if n = 9 then [backslash, CHR ''t'']
      else if n < 32 then [backslash, CHR ''u'', CHR ''0'', CHR ''0'', hex_char (n div 16), hex_char (n mod 16)]
      else [c])"

definition json_quote :: "string \<Rightarrow> string" where
  "json_quote s = dquote # concat (map json_escape s) @ [dquote]"

datatype jvalue = JString string | JNumber int

fun json_value :: "jvalue \<Rightarrow> string" where
  "json_value (JString s) = json_quote s"
| "json_value (JNumber i) = show_int i"

text \<open>\<open>JSON.stringify\<close> on an object literal whose fields are strings and integers.\<close>

definition stringify :: "(string \<times> jvalue) list \<Rightarrow> string" where
  "stringify fields =
     ''{'' @ join '','' (map (\<lambda>(k, v). json_quote k @ '':'' @ json_value v) fields) @ ''}''"

section \<open>Regular expressions\<close>

text \<open>
  The subset of JavaScript regular expressions that \<open>utils/subdomain\<close> uses: character
  classes given by ranges, concatenation, the star and the optional group. \<open>regex_test\<close> is
  \<open>/^r$/.test(s)\<close>: the whole string has to match. It is computed with derivatives.
\<close>

datatype rexp =
    Zero
  | One
  | Cls "(char \<times> char) list"
  | Alt rexp rexp
  | Seq rexp rexp
  | Star rexp

definition in_class :: "(char \<times> char) list \<Rightarrow> char \<Rightarrow> bool" where
  "in_class rs c =
     list_ex (\<lambda>(lo, hi). (of_char lo :: nat) \<le> of_char c \<and> (of_char c :: nat) \<le> of_char hi) rs"

definition Opt :: "rexp \<Rightarrow> rexp" where
  "Opt r = Alt r One"

fun nullable :: "rexp \<Rightarrow> bool" where
  "nullable Zero = False"
| "nullable One = True"
| "nullable (Cls rs) = False"
| "nullable (Alt r s) = (nullable r \<or> nullable s)"
| "nullable (Seq r s) = (nullable r \<and> nullable s)"
| "nullable (Star r) = True"

fun deriv :: "char \<Rightarrow> rexp \<Rightarrow> rexp" where
  "deriv c Zero = Zero"
| "deriv c One = Zero"
| "deriv c (Cls rs) = (if in_class rs c then One else Zero)"
| "deriv c (Alt r s) = Alt (deriv c r) (deriv c s)"
| "deriv c (Seq r s) =
     (if nullable r then Alt (Seq (deriv c r) s) (deriv c s) else Seq (deriv c r) s)"
| "deriv c (Star r) = Seq (deriv c r) (Star r)"

fun regex_test :: "rexp \<Rightarrow> string \<Rightarrow> bool" where
  "regex_test r [] = nullable r"
| "regex_test r (c # cs) = regex_test (deriv c r) cs"

text \<open>The set of strings a regular expression denotes, for the proofs.\<close>

inductive_set kleene :: "string set \<Rightarrow> string set" for A :: "string set" where
  kleene_nil: "[] \<in> kleene A"
| kleene_app: "u \<in> A \<Longrightarrow> v \<in> kleene A \<Longrightarrow> u @ v \<in> kleene A"

fun lang :: "rexp \<Rightarrow> string set" where
  "lang Zero = {}"
| "lang One = {[]}"
| "lang (Cls rs) = {[c] | c. in_class rs c}"
| "lang (Alt r s) = lang r \<union> lang s"
| "lang (Seq r s) = {u @ v | u v. u \<in> lang r \<and> v \<in> lang s}"
| "lang (Star r) = kleene (lang r)"

section \<open>utils/subdomain\<close>

definition CHARS :: string where
  "CHARS = ''abcdefghijklmnopqrstuvwxyz0123456789''"

text \<open>
  \<open>generateSubdomain\<close>. The buffer returned by \<open>crypto.randomBytes(8)\<close> is the function
  \<open>bytes\<close> from the indices 0..7 to bytes; the \<open>for\<close> loop is \<open>generate_loop\<close>.
\<close>

function generate_loop :: "(nat \<Rightarrow> 8 word) \<Rightarrow> nat \<Rightarrow> string \<Rightarrow> string" where
  "generate_loop bytes i result =
     (if i < 8
      then generate_loop bytes (i + 1) (result @ [CHARS ! (unat (bytes i) mod length CHARS)])
      else result)"
  by pat_completeness auto
termination
  by (relation "measure (\<lambda>(bytes, i, result). 8 - i)") auto

definition generateSubdomain :: "(nat \<Rightarrow> 8 word) \<Rightarrow> string" where
  "generateSubdomain bytes = generate_loop bytes 0 []"

text \<open>The classes \<open>[a-z0-9]\<close> and \<open>[a-z0-9-]\<close>, and the pattern \<open>^[a-z0-9]([a-z0-9-]*[a-z0-9])?$\<close>.\<close>

definition alnum_class :: "(char \<times> char) list" where
  "alnum_class = [(CHR ''a'', CHR ''z''), (CHR ''0'', CHR ''9'')]"

definition label_class :: "(char \<times> char) list" where
  "label_class = [(CHR ''a'', CHR ''z''), (CHR ''0'', CHR ''9''), (CHR ''-'', CHR ''-'')]"

definition subdomain_pattern :: rexp where
  "subdomain_pattern =
     Seq (Cls alnum_class) (Opt (Seq (Star (Cls label_class)) (Cls alnum_class)))"

definition isValidSubdomain :: "string \<Rightarrow> bool" where
  "isValidSubdomain subdomain =
     (if length subdomain < 3 \<or> length subdomain > 63 then False
      else regex_test subdomain_pattern subdomain)"

text \<open>The words of the specification for a label, to compare \<open>isValidSubdomain\<close> with.\<close>

definition is_lower :: "char \<Rightarrow> bool" where
  "is_lower c = ((97::nat) \<le> of_char c \<and> (of_char c :: nat) \<le> 122)"

definition is_digit :: "char \<Rightarrow> bool" where
  "is_digit c = ((48::nat) \<le> of_char c \<and> (of_char c :: nat) \<le> 57)"

definition is_alnum :: "char \<Rightarrow> bool" where
  "is_alnum c = (is_lower c \<or> is_digit c)"

definition is_label_char :: "char \<Rightarrow> bool" where
  "is_label_char c = (is_lower c \<or> is_digit c \<or> c = CHR ''-'')"

section \<open>server/auth\<close>

definition validateApiKey :: "string option \<Rightarrow> string list \<Rightarrow> bool" where
  "validateApiKey key validKeys =
     (if \<not> truthy key \<or> length validKeys = 0 then False
      else the key \<in> set validKeys)"

section \<open>Buffers and base64\<close>

text \<open>
  \<open>buf.toString('base64')\<close> and \<open>Buffer.from(s, 'base64')\<close>: the alphabet of RFC 4648 with
  padding on the way out; on the way in the text ends at the first \<open>=\<close>, characters outside
  the alphabet are skipped and the URL-safe letters are accepted too.
\<close>

definition b64_char :: "nat \<Rightarrow> char" where
  "b64_char i =
     (if i < 26 then char_of (65 + i)
      else if i < 52 then char_of (71 + i)
      else if i < 62 then char_of (i - 4)
      else if i = 62 then CHR ''+''
      else CHR ''/'')"

fun base64_encode :: "bytes \<Rightarrow> string" where
  "base64_encode [] = []"
| "base64_encode [a] =
     (let x = unat a
      in [b64_char (x div 4), b64_char ((x mod 4) * 16), CHR ''='', CHR ''=''])"
| "base64_encode [a, b] =
     (let x = unat a; y = unat b
      in [b64_char (x div 4), b64_char ((x mod 4) * 16 + y div 16),
          b64_char ((y mod 16) * 4), CHR ''=''])"
| "base64_encode (a # b # c # rest) =
     (let x = unat a; y = unat b; z = unat c
      in [b64_char (x div 4), b64_char ((x mod 4) * 16 + y div 16),
          b64_char ((y mod 16) * 4 + z div 64), b64_char (z mod 64)] @ base64_encode rest)"

definition b64_value :: "char \<Rightarrow> nat option" where
  "b64_value c =
     (let n = (of_char c :: nat) in
      if 65 \<le> n \<and> n \<le> 90 then Some (n - 65)
      else if 97 \<le> n \<and> n \<le> 122 then Some (n - 71)
      else if 48 \<le> n \<and> n \<le> 57 then Some (n + 4)
      else if c = CHR ''+'' \<or> c = CHR ''-'' then Some 62
      else if c = CHR ''/'' \<or> c = CHR ''_'' then Some 63
      else None)"

fun decode_groups :: "nat list \<Rightarrow> bytes" where
  "decode_groups (p # q # r # s # rest) =
     [of_nat (p * 4 + q div 16), of_nat ((q mod 16) * 16 + r div 4), of_nat ((r mod 4) * 64 + s)]
       @ decode_groups rest"
| "decode_groups [p, q, r] = [of_nat (p * 4 + q div 16), of_nat ((q mod 16) * 16 + r div 4)]"
| "decode_groups [p, q] = [of_nat (p * 4 + q div 16)]"
| "decode_groups _ = []"

definition base64_decode :: "string \<Rightarrow> bytes" where
  "base64_decode s =
     decode_groups (List.map_filter b64_value (takeWhile (\<lambda>c. c \<noteq> CHR ''='') s))"


section \<open>types\<close>

text \<open>
  The frames of \<open>types.ts\<close>. Their fields \<open>id\<close>, \<open>status\<close>, \<open>headers\<close> and \<open>body\<close> carry a
  prefix here, since a field name is a constant of the theory. A \<open>Record<string, string>\<close>
  is an association list in insertion order: \<open>AList.update\<close> is assignment to a key and
  \<open>AList.delete\<close> is \<open>delete\<close>.
\<close>

record TunnelRequest =
  rq_id :: string
  rq_method :: string
  rq_path :: string
  rq_headers :: "(string \<times> string) list"
  rq_body :: "string option"

record TunnelResponse =
  rs_id :: string
  rs_status :: nat
  rs_headers :: "(string \<times> string) list"
  rs_body :: "string option"

record RelayServerConfig =
  port :: nat
  apiKeys :: "string list"
  domain :: string
  maxTunnels :: int

datatype WSMessage =
    TunnelAssigned string string
  | TunnelRequestMsg TunnelRequest
  | TunnelResponseMsg TunnelResponse
  | TunnelError string
  | Ping
  | Pong

section \<open>Objects of the platform\<close>

text \<open>
  A header of an incoming message is a string, or a list of strings for a header that
  Node keeps multi-valued. \<open>header_string\<close> reads a header that Node delivers as one string.
\<close>

datatype header_value = Single string | Multi "string list"

text \<open>The field \<open>method\<close> of a request is \<open>http_method\<close> here.\<close>

record IncomingMessage =
  url :: "string option"
  http_method :: "string option"
  headers :: "(string \<times> header_value) list"
  httpVersionMajor :: nat
  httpVersionMinor :: nat

definition header_string :: "IncomingMessage \<Rightarrow> string \<Rightarrow> string option" where
  "header_string rq k = (case map_of (headers rq) k of Some (Single v) \<Rightarrow> Some v | _ \<Rightarrow> None)"

fun value_truthy :: "header_value \<Rightarrow> bool" where
  "value_truthy (Single v) = (v \<noteq> [])"
| "value_truthy (Multi vs) = True"

fun value_flat :: "header_value \<Rightarrow> string" where
  "value_flat (Single v) = v"
| "value_flat (Multi vs) = join '', '' vs"

text \<open>
  The loop over \<open>Object.entries(headers)\<close> that \<open>serializeRequest\<close> and \<open>proxyToLocal\<close> both
  run: a value that is false in a condition is left out, a list is joined.
\<close>

definition flatten_headers :: "(string \<times> header_value) list \<Rightarrow> (string \<times> string) list" where
  "flatten_headers entries =
     fold (\<lambda>(key, v) hs. if value_truthy v then AList.update key (value_flat v) hs else hs)
       entries []"

text \<open>
  A WebSocket of the \<open>ws\<close> library: its state and the frames sent on it. On the relay,
  \<open>owner\<close> is the variable \<open>subdomain\<close> that the listeners registered on the socket close
  over.
\<close>

datatype readyState = CONNECTING | OPEN | CLOSING | CLOSED

record WebSocket =
  readyState :: readyState
  sent :: "WSMessage list"

record ServerSocket = WebSocket +
  owner :: string

text \<open>
  What \<open>res.writeHead(code, headers); res.end(data)\<close> hands to the caller. A response object
  is the list of these; \<open>writableEnded\<close> holds once the list is not empty.
\<close>

datatype payload = NoBody | Text string | Binary bytes


record ServerWrite =
  statusCode :: nat
  outHeaders :: "(string \<times> string) list"
  content :: payload

text \<open>
  One HTTP exchange: the request and response objects that the HTTP server hands to
  \<open>handleHttpRequest\<close>, with the variables \<open>chunks\<close>, \<open>bodySize\<close> and \<open>tunnel\<close> of that call.
  The request stream emits \<open>data\<close> and \<open>end\<close> only while it is being read (\<open>Reading\<close>), and
  nothing after \<open>req.destroy()\<close>.
\<close>

datatype phase = Answered | Reading | Ended | Destroyed | Errored

record Exchange =
  req :: IncomingMessage
  written :: "ServerWrite list"
  chunks :: "bytes list"
  bodySize :: nat
  tunnel_ws :: nat
  phase :: phase

text \<open>
  \<open>res.writeHead(status, headers)\<close> checks its arguments before anything is written. It
  takes the status as a 32-bit integer (\<open>statusCode |= 0\<close>, here on a number that holds a
  natural number exactly) and throws a \<open>RangeError\<close> unless that integer is between 100 and
  999. It throws a \<open>TypeError\<close> for a header whose name is not an HTTP token, one or more
  of the characters of \<open>token_class\<close>, and for a header whose value holds a character other
  than the tab and the codes \<open>0x20\<close> to \<open>0x7e\<close> and \<open>0x80\<close> to \<open>0xff\<close>.
\<close>

definition to_int32 :: "nat \<Rightarrow> int" where
  "to_int32 n = (let m = int n mod 2 ^ 32 in if m < 2 ^ 31 then m else m - 2 ^ 32)"

definition token_class :: "(char \<times> char) list" where
  "token_class =
     [(CHR 0x5E, CHR 0x5E), (CHR ''_'', CHR ''_''), (CHR 0x60, CHR 0x60),
      (CHR ''a'', CHR ''z''), (CHR ''A'', CHR ''Z''), (CHR ''-'', CHR ''-''),
      (CHR ''0'', CHR ''9''), (CHR ''!'', CHR ''!''), (CHR ''#'', CHR ''#''),
      (CHR ''$'', CHR ''$''), (CHR ''%'', CHR ''%''), (CHR ''&'', CHR ''&''),
      (CHR 0x27, CHR 0x27), (CHR ''*'', CHR ''*''), (CHR ''+'', CHR ''+''),
      (CHR ''.'', CHR ''.''), (CHR ''|'', CHR ''|''), (CHR ''~'', CHR ''~'')]"

definition token_pattern :: rexp where
  "token_pattern = Seq (Cls token_class) (Star (Cls token_class))"

definition checkIsHttpToken :: "string \<Rightarrow> bool" where
  "checkIsHttpToken val = regex_test token_pattern val"

definition header_char_class :: "(char \<times> char) list" where
  "header_char_class = [(CHR 0x09, CHR 0x09), (CHR 0x20, CHR 0x7E), (CHR 0x80, CHR 0xFF)]"

definition checkInvalidHeaderChar :: "string \<Rightarrow> bool" where
  "checkInvalidHeaderChar val = list_ex (\<lambda>c. \<not> in_class header_char_class c) val"

text \<open>
  Its last check is on the message as a whole: a \<open>Trailer\<close> header is refused unless the
  response goes out in chunks. Node recognises the headers it knows by their name in lower
  case. A response is chunked when a \<open>Transfer-Encoding\<close> header of it says so (the pattern
  \<open>chunkExpression\<close> finds the word \<open>chunked\<close>, in any case, between characters that are
  not letters, digits or underscores) and its status is not 204 or 304; without such a
  header and without \<open>Content-Length\<close> it is chunked when it has a body and the request
  allows chunks, which a request of HTTP/1.1 does, and an older one when its \<open>TE\<close> header
  says so. A response to \<open>HEAD\<close> has no body, nor has one with status 204, 304 or 100 to
  199.
\<close>

definition to_lower :: "char \<Rightarrow> char" where
  "to_lower c =
     (let n = of_char c :: nat in if 65 \<le> n \<and> n \<le> 90 then char_of (n + 32) else c)"

definition to_upper :: "char \<Rightarrow> char" where
  "to_upper c =
     (let n = of_char c :: nat in if 97 \<le> n \<and> n \<le> 122 then char_of (n - 32) else c)"

definition names_header :: "string \<Rightarrow> (string \<times> string) list \<Rightarrow> bool" where
  "names_header name hs = list_ex (\<lambda>(key, v). map to_lower key = name) hs"

definition any_char :: "(char \<times> char) list" where
  "any_char = [(CHR 0x00, CHR 0xFF)]"

definition non_word :: "(char \<times> char) list" where
  "non_word =
     [(CHR 0x00, CHR 0x2F), (CHR 0x3A, CHR 0x40), (CHR 0x5B, CHR 0x5E), (CHR 0x60, CHR 0x60),
      (CHR 0x7B, CHR 0xFF)]"

fun ignoring_case :: "string \<Rightarrow> rexp" where
  "ignoring_case [] = One"
| "ignoring_case (c # cs) = Seq (Cls [(c, c), (to_upper c, to_upper c)]) (ignoring_case cs)"

definition chunkExpression :: rexp where
  "chunkExpression =
     Seq (Opt (Seq (Star (Cls any_char)) (Cls non_word)))
       (Seq (ignoring_case ''chunked'') (Opt (Seq (Cls non_word) (Star (Cls any_char)))))"

definition hasBody :: "IncomingMessage \<Rightarrow> int \<Rightarrow> bool" where
  "hasBody rq code =
     (http_method rq \<noteq> Some ''HEAD'' \<and> code \<noteq> 204 \<and> code \<noteq> 304
      \<and> \<not> (100 \<le> code \<and> code \<le> 199))"

definition useChunkedEncodingByDefault :: "IncomingMessage \<Rightarrow> bool" where
  "useChunkedEncodingByDefault rq =
     (if httpVersionMajor rq < 1 \<or> httpVersionMinor rq < 1
      then regex_test chunkExpression
             (case header_string rq ''te'' of None \<Rightarrow> ''undefined'' | Some v \<Rightarrow> v)
      else True)"

definition chunkedEncoding :: "IncomingMessage \<Rightarrow> int \<Rightarrow> (string \<times> string) list \<Rightarrow> bool" where
  "chunkedEncoding rq code hs =
     (if names_header ''transfer-encoding'' hs
      then list_ex (\<lambda>(key, v). map to_lower key = ''transfer-encoding''
                                \<and> regex_test chunkExpression v) hs
           \<and> code \<noteq> 204 \<and> code \<noteq> 304
      else \<not> names_header ''content-length'' hs \<and> hasBody rq code
           \<and> useChunkedEncodingByDefault rq)"

text \<open>\<open>writeHead\<close> on a response to the request \<open>rq\<close>.\<close>

definition writeHead_throws :: "IncomingMessage \<Rightarrow> nat \<Rightarrow> (string \<times> string) list \<Rightarrow> bool" where
  "writeHead_throws rq status hs =
     (to_int32 status < 100 \<or> to_int32 status > 999
      \<or> list_ex (\<lambda>(key, v). \<not> checkIsHttpToken key \<or> checkInvalidHeaderChar v) hs
      \<or> (names_header ''trailer'' hs \<and> \<not> chunkedEncoding rq (to_int32 status) hs))"

text \<open>
  A function of the relay that can throw ends in one of two ways, each with the state it
  leaves behind. \<open>state_left\<close> is that state.
\<close>

datatype 'a outcome = Returned 'a | Thrown 'a

fun state_left :: "'a outcome \<Rightarrow> 'a" where
  "state_left (Returned st) = st"
| "state_left (Thrown st) = st"

section \<open>server/relay-server\<close>

definition MAX_BODY_SIZE :: nat where
  "MAX_BODY_SIZE = 10 * 1024 * 1024"

definition REQUEST_TIMEOUT :: nat where
  "REQUEST_TIMEOUT = 30000"

definition HEARTBEAT_INTERVAL :: nat where
  "HEARTBEAT_INTERVAL = 30000"

text \<open>
  Objects are referred to by their address: \<open>res\<close> and \<open>ws\<close> are addresses in the stores
  \<open>exchanges\<close> and \<open>sockets\<close> of the relay, \<open>timeout\<close> and \<open>heartbeat\<close> are timer handles.
\<close>

record PendingRequest =
  res :: nat
  timeout :: nat

record TunnelConnection =
  ws :: nat
  subdomain :: string
  heartbeat :: nat
  alive :: bool

text \<open>
  The relay: the two maps and the configuration of the class, and the objects they refer
  to: \<open>exchanges\<close> and \<open>sockets\<close> are stores, and the objects created so far are those at
  the addresses below \<open>exchangeCount\<close> and \<open>socketCount\<close>. \<open>timeouts\<close> and \<open>intervals\<close> hold the
  timers that are armed, each with its delay and the variable its callback closes over (the
  request id, the subdomain).
\<close>

record RelayServer =
  tunnels :: "(string \<times> TunnelConnection) list"
  pendingRequests :: "(string \<times> PendingRequest) list"
  config :: RelayServerConfig
  exchanges :: "nat \<Rightarrow> Exchange"
  exchangeCount :: nat
  sockets :: "nat \<Rightarrow> ServerSocket"
  socketCount :: nat
  timeouts :: "(nat \<times> nat \<times> string) list"
  intervals :: "(nat \<times> nat \<times> string) list"
  nextHandle :: nat

definition blank_exchange :: Exchange where
  "blank_exchange =
     \<lparr>req = \<lparr>url = None, http_method = None, headers = [], httpVersionMajor = 1,
             httpVersionMinor = 1\<rparr>,
      written = [], chunks = [],
      bodySize = 0, tunnel_ws = 0, phase = Answered\<rparr>"

definition blank_socket :: ServerSocket where
  "blank_socket = \<lparr>readyState = CLOSED, sent = [], owner = []\<rparr>"

definition newRelayServer :: "RelayServerConfig \<Rightarrow> RelayServer" where
  "newRelayServer cfg =
     \<lparr>tunnels = [], pendingRequests = [], config = cfg,
      exchanges = (\<lambda>i. blank_exchange), exchangeCount = 0,
      sockets = (\<lambda>w. blank_socket), socketCount = 0,
      timeouts = [], intervals = [], nextHandle = 0\<rparr>"

definition update_exchange :: "nat \<Rightarrow> (Exchange \<Rightarrow> Exchange) \<Rightarrow> RelayServer \<Rightarrow> RelayServer" where
  "update_exchange i f st = st\<lparr>exchanges := (exchanges st)(i := f (exchanges st i))\<rparr>"

definition update_socket ::
  "nat \<Rightarrow> (ServerSocket \<Rightarrow> ServerSocket) \<Rightarrow> RelayServer \<Rightarrow> RelayServer" where
  "update_socket w f st = st\<lparr>sockets := (sockets st)(w := f (sockets st w))\<rparr>"

definition writableEnded :: "RelayServer \<Rightarrow> nat \<Rightarrow> bool" where
  "writableEnded st i = (written (exchanges st i) \<noteq> [])"

text \<open>\<open>res.writeHead(code, hs); res.end(data)\<close> on the response of exchange \<open>i\<close>.\<close>

definition respond ::
  "nat \<Rightarrow> nat \<Rightarrow> (string \<times> string) list \<Rightarrow> payload \<Rightarrow> RelayServer \<Rightarrow> RelayServer" where
  "respond i code hs data st =
     update_exchange i
       (\<lambda>x. x\<lparr>written := written x @ [\<lparr>statusCode = code, outHeaders = hs, content = data\<rparr>]\<rparr>) st"

text \<open>
  \<open>ws.send\<close>, \<open>ws.close\<close> and \<open>ws.terminate\<close>: a frame goes out on an open socket only;
  closing moves an open socket to \<open>CLOSING\<close>.
\<close>

definition ws_send :: "nat \<Rightarrow> WSMessage \<Rightarrow> RelayServer \<Rightarrow> RelayServer" where
  "ws_send w m st =
     (if readyState (sockets st w) = OPEN
      then update_socket w (\<lambda>s. s\<lparr>sent := sent s @ [m]\<rparr>) st
      else st)"

definition ws_close :: "nat \<Rightarrow> RelayServer \<Rightarrow> RelayServer" where
  "ws_close w st =
     (if readyState (sockets st w) = OPEN \<or> readyState (sockets st w) = CONNECTING
      then update_socket w (\<lambda>s. s\<lparr>readyState := CLOSING\<rparr>) st
      else st)"

definition ws_terminate :: "nat \<Rightarrow> RelayServer \<Rightarrow> RelayServer" where
  "ws_terminate w st =
     (if readyState (sockets st w) = CLOSED then st
      else update_socket w (\<lambda>s. s\<lparr>readyState := CLOSING\<rparr>) st)"

definition clearTimeout :: "nat \<Rightarrow> RelayServer \<Rightarrow> RelayServer" where
  "clearTimeout h st = st\<lparr>timeouts := AList.delete h (timeouts st)\<rparr>"

definition clearInterval :: "nat \<Rightarrow> RelayServer \<Rightarrow> RelayServer" where
  "clearInterval h st = st\<lparr>intervals := AList.delete h (intervals st)\<rparr>"

definition json_headers :: "(string \<times> string) list" where
  "json_headers = [(''Content-Type'', ''application/json'')]"

subsection \<open>extractSubdomain, serializeRequest, removeTunnel\<close>

definition extractSubdomain :: "RelayServer \<Rightarrow> string \<Rightarrow> string option" where
  "extractSubdomain st host =
     (let hostname = split_colon_first host;
          dom = domain (config st)
      in if hostname = dom then None
         else if endsWith hostname (''.'' @ dom) then Some (slice_off_end hostname (length dom + 1))
         else None)"

text \<open>\<open>uuid\<close> is the value of \<open>crypto.randomUUID()\<close>.\<close>

definition serializeRequest :: "IncomingMessage \<Rightarrow> bytes \<Rightarrow> string \<Rightarrow> TunnelRequest" where
  "serializeRequest rq body uuid =
     \<lparr>rq_id = uuid,
      rq_method = or_default (http_method rq) ''GET'',
      rq_path = or_default (url rq) ''/'',
      rq_headers = flatten_headers (headers rq),
      rq_body = (if length body > 0 then Some (base64_encode body) else None)\<rparr>"

definition removeTunnel :: "string \<Rightarrow> RelayServer \<Rightarrow> RelayServer" where
  "removeTunnel sub st =
     (case map_of (tunnels st) sub of
        None \<Rightarrow> st
      | Some conn \<Rightarrow>
          (let st1 = clearInterval (heartbeat conn) st;
               st2 = (if readyState (sockets st1 (ws conn)) = OPEN then ws_close (ws conn) st1 else st1)
           in st2\<lparr>tunnels := AList.delete sub (tunnels st2)\<rparr>))"

subsection \<open>handleHttpRequest and its listeners\<close>

definition operational :: "nat \<Rightarrow> IncomingMessage \<Rightarrow> RelayServer \<Rightarrow> RelayServer" where
  "operational i rq st =
     (if url rq = Some ''/health''
      then respond i 200 json_headers
             (Text (stringify [(''status'', JString ''ok''),
                               (''tunnels'', JNumber (int (length (tunnels st)))),
                               (''maxTunnels'', JNumber (maxTunnels (config st)))])) st
      else respond i 200 [(''Content-Type'', ''text/plain'')]
             (Text ''@gagandeep023/expose-tunnel relay server'') st)"

text \<open>
  The HTTP server creates the request and response objects of a new exchange and calls
  \<open>handleHttpRequest\<close>. The exchange is left in phase \<open>Reading\<close> when the listeners for
  \<open>data\<close>, \<open>end\<close> and \<open>error\<close> have been registered.
\<close>

definition open_exchange :: "IncomingMessage \<Rightarrow> RelayServer \<Rightarrow> RelayServer" where
  "open_exchange rq st =
     st\<lparr>exchanges := (exchanges st)(exchangeCount st :=
            \<lparr>req = rq, written = [], chunks = [], bodySize = 0, tunnel_ws = 0, phase = Answered\<rparr>),
        exchangeCount := Suc (exchangeCount st)\<rparr>"

definition handleHttpRequest :: "IncomingMessage \<Rightarrow> RelayServer \<Rightarrow> RelayServer" where
  "handleHttpRequest rq st0 =
     (let i = exchangeCount st0;
          st = open_exchange rq st0;
          host = or_default (header_string rq ''host'') [];
          sub = extractSubdomain st host
      in if \<not> truthy sub \<or> sub = Some ''tunnel'' then operational i rq st
         else
           (case map_of (tunnels st) (the sub) of
              None \<Rightarrow>
                respond i 404 json_headers
                  (Text (stringify [(''error'', JString ''Tunnel not found''),
                                    (''subdomain'', JString (the sub))])) st
            | Some tunnel \<Rightarrow>
                if readyState (sockets st (ws tunnel)) \<noteq> OPEN
                then removeTunnel (the sub)
                       (respond i 502 json_headers
                          (Text (stringify [(''error'', JString ''Tunnel client disconnected'')])) st)
                else update_exchange i (\<lambda>x. x\<lparr>tunnel_ws := ws tunnel, phase := Reading\<rparr>) st))"

text \<open>The \<open>data\<close> listener.\<close>

definition onData :: "nat \<Rightarrow> bytes \<Rightarrow> RelayServer \<Rightarrow> RelayServer" where
  "onData i chunk st =
     (if i < exchangeCount st \<and> phase (exchanges st i) = Reading
      then
        (let st1 = update_exchange i (\<lambda>x. x\<lparr>bodySize := bodySize x + length chunk\<rparr>) st
         in if bodySize (exchanges st1 i) > MAX_BODY_SIZE
            then update_exchange i (\<lambda>x. x\<lparr>phase := Destroyed\<rparr>)
                   (respond i 413 json_headers
                      (Text (stringify [(''error'', JString ''Request body too large'')])) st1)
            else update_exchange i (\<lambda>x. x\<lparr>chunks := chunks x @ [chunk]\<rparr>) st1)
      else st)"

text \<open>The timeout callback armed by the \<open>end\<close> listener; \<open>h\<close> is the handle of the timer.\<close>

definition onTimeout :: "nat \<Rightarrow> RelayServer \<Rightarrow> RelayServer" where
  "onTimeout h st =
     (case map_of (timeouts st) h of
        None \<Rightarrow> st
      | Some (delay, requestId) \<Rightarrow>
          (let st1 = st\<lparr>timeouts := AList.delete h (timeouts st)\<rparr>;
               st2 = (case map_of (pendingRequests st1) requestId of
                        None \<Rightarrow> st1
                      | Some pending \<Rightarrow>
                          if \<not> writableEnded st1 (res pending)
                          then respond (res pending) 504 json_headers
                                 (Text (stringify [(''error'', JString ''Tunnel request timed out'')])) st1
                          else st1)
           in st2\<lparr>pendingRequests := AList.delete requestId (pendingRequests st2)\<rparr>))"

text \<open>The \<open>end\<close> listener.\<close>

definition onEnd :: "nat \<Rightarrow> string \<Rightarrow> RelayServer \<Rightarrow> RelayServer" where
  "onEnd i uuid st =
     (if i < exchangeCount st \<and> phase (exchanges st i) = Reading
      then
        (let st1 = update_exchange i (\<lambda>x. x\<lparr>phase := Ended\<rparr>) st
         in if writableEnded st1 i then st1
            else
              (let x = exchanges st1 i;
                   body = concat (chunks x);
                   tunnelRequest = serializeRequest (req x) body uuid;
                   requestId = rq_id tunnelRequest;
                   h = nextHandle st1;
                   st2 = st1\<lparr>timeouts := AList.update h (REQUEST_TIMEOUT, requestId) (timeouts st1),
                             nextHandle := Suc h\<rparr>;
                   st3 = st2\<lparr>pendingRequests :=
                               AList.update requestId \<lparr>res = i, timeout = h\<rparr> (pendingRequests st2)\<rparr>
               in ws_send (tunnel_ws x) (TunnelRequestMsg tunnelRequest) st3))
      else st)"

text \<open>The \<open>error\<close> listener.\<close>

definition onError :: "nat \<Rightarrow> RelayServer \<Rightarrow> RelayServer" where
  "onError i st =
     (if i < exchangeCount st \<and>
         (phase (exchanges st i) = Reading \<or> phase (exchanges st i) = Ended)
      then
        (let st1 = update_exchange i (\<lambda>x. x\<lparr>phase := Errored\<rparr>) st
         in if \<not> writableEnded st1 i then respond i 500 [] (Text ''Request error'') st1 else st1)
      else st)"

subsection \<open>handleTunnelResponse and the listeners of a tunnel socket\<close>

text \<open>
  \<open>handleTunnelResponse\<close> throws when \<open>writeHead\<close> refuses the status or a header of the
  frame. By then the timeout is cleared and the entry is deleted, and nothing has been
  written. The status that is written is the one \<open>writeHead\<close> has made of it.
\<close>

definition handleTunnelResponse :: "TunnelResponse \<Rightarrow> RelayServer \<Rightarrow> RelayServer outcome" where
  "handleTunnelResponse response st =
     (case map_of (pendingRequests st) (rs_id response) of
        None \<Rightarrow> Returned st
      | Some pending \<Rightarrow>
          (let st1 = clearTimeout (timeout pending) st;
               st2 = st1\<lparr>pendingRequests := AList.delete (rs_id response) (pendingRequests st1)\<rparr>
           in if writableEnded st2 (res pending) then Returned st2
              else
                (let hs = AList.delete ''transfer-encoding'' (rs_headers response)
                 in if writeHead_throws (req (exchanges st2 (res pending))) (rs_status response) hs
                    then Thrown st2
                    else if truthy (rs_body response)
                    then Returned
                           (respond (res pending) (nat (to_int32 (rs_status response))) hs
                              (Binary (base64_decode (the (rs_body response)))) st2)
                    else Returned
                           (respond (res pending) (nat (to_int32 (rs_status response))) hs
                              NoBody st2))))"

text \<open>
  The \<open>message\<close> listener of socket \<open>w\<close>. \<open>None\<close> is a text that \<open>JSON.parse\<close> rejects. The
  variable \<open>conn\<close> of the listener is the connection that was registered for this socket:
  it is the entry under \<open>owner\<close> as long as that entry still refers to \<open>w\<close>. The body of
  the listener is a \<open>try\<close> block whose \<open>catch\<close> writes a line to the log: when
  \<open>handleTunnelResponse\<close> throws, the listener returns with the state that call left.
\<close>

definition onMessage :: "nat \<Rightarrow> WSMessage option \<Rightarrow> RelayServer \<Rightarrow> RelayServer" where
  "onMessage w msg st =
     (if w < socketCount st
      then
        (case msg of
           None \<Rightarrow> st
         | Some Pong \<Rightarrow>
             (let sub = owner (sockets st w)
              in case map_of (tunnels st) sub of
                   None \<Rightarrow> st
                 | Some conn \<Rightarrow>
                     if ws conn = w
                     then st\<lparr>tunnels := AList.update sub (conn\<lparr>alive := True\<rparr>) (tunnels st)\<rparr>
                     else st)
         | Some (TunnelResponseMsg response) \<Rightarrow> state_left (handleTunnelResponse response st)
         | Some _ \<Rightarrow> st)
      else st)"

text \<open>The \<open>close\<close> and \<open>error\<close> listeners of socket \<open>w\<close>.\<close>

definition onClose :: "nat \<Rightarrow> RelayServer \<Rightarrow> RelayServer" where
  "onClose w st =
     (if w < socketCount st
      then removeTunnel (owner (sockets st w))
             (update_socket w (\<lambda>s. s\<lparr>readyState := CLOSED\<rparr>) st)
      else st)"

definition onSocketError :: "nat \<Rightarrow> RelayServer \<Rightarrow> RelayServer" where
  "onSocketError w st =
     (if w < socketCount st then removeTunnel (owner (sockets st w)) st else st)"

text \<open>The heartbeat callback of the interval \<open>h\<close>.\<close>

definition onHeartbeat :: "nat \<Rightarrow> RelayServer \<Rightarrow> RelayServer" where
  "onHeartbeat h st =
     (case map_of (intervals st) h of
        None \<Rightarrow> st
      | Some (period, sub) \<Rightarrow>
          (case map_of (tunnels st) sub of
             None \<Rightarrow> st
           | Some conn \<Rightarrow>
               if heartbeat conn \<noteq> h then st
               else if \<not> alive conn
               then ws_terminate (ws conn) (clearInterval (heartbeat conn) st)
               else ws_send (ws conn) Ping
                      (st\<lparr>tunnels := AList.update sub (conn\<lparr>alive := False\<rparr>) (tunnels st)\<rparr>)))"

subsection \<open>stop\<close>

definition stop :: "RelayServer \<Rightarrow> RelayServer" where
  "stop st =
     (let st1 = fold (\<lambda>(k, conn) s. ws_close (ws conn) (clearInterval (heartbeat conn) s))
                  (tunnels st) st;
          st2 = st1\<lparr>tunnels := []\<rparr>;
          st3 = fold (\<lambda>(k, pending) s.
                        let s1 = clearTimeout (timeout pending) s
                        in if \<not> writableEnded s1 (res pending)
                           then respond (res pending) 503 [] (Text ''Server shutting down'') s1
                           else s1)
                  (pendingRequests st2) st2
      in st3\<lparr>pendingRequests := []\<rparr>)"

subsection \<open>The upgrade handler and handleWebSocketConnection\<close>

definition has :: "('k \<times> 'v) list \<Rightarrow> 'k \<Rightarrow> bool" where
  "has m k = (map_of m k \<noteq> None)"

text \<open>
  The \<open>do ... while\<close> loop that mints a label. \<open>rng n\<close> is the buffer that the \<open>n\<close>-th call of
  \<open>crypto.randomBytes(8)\<close> returns. The loop has no bound, so its result is an option:
  \<open>None\<close> stands for a loop that never ends.
\<close>

partial_function (option) mint_loop ::
  "(string \<times> TunnelConnection) list \<Rightarrow> (nat \<Rightarrow> nat \<Rightarrow> 8 word) \<Rightarrow> nat \<Rightarrow> string option" where
  "mint_loop ts rng n =
     (let sub = generateSubdomain (rng n)
      in if has ts sub then mint_loop ts rng (Suc n) else Some sub)"

definition resolveSubdomain ::
  "IncomingMessage \<Rightarrow> (nat \<Rightarrow> nat \<Rightarrow> 8 word) \<Rightarrow> RelayServer \<Rightarrow> string option" where
  "resolveSubdomain rq rng st =
     (let requestedSubdomain = header_string rq ''x-subdomain''
      in if truthy requestedSubdomain \<and> isValidSubdomain (the requestedSubdomain)
            \<and> \<not> has (tunnels st) (the requestedSubdomain)
         then Some (the requestedSubdomain)
         else mint_loop (tunnels st) rng 0)"

definition register :: "string \<Rightarrow> RelayServer \<Rightarrow> RelayServer" where
  "register sub st =
     (let link = ''https://'' @ sub @ ''.'' @ domain (config st);
          w = socketCount st;
          h = nextHandle st;
          conn = \<lparr>ws = w, subdomain = sub, heartbeat = h, alive = True\<rparr>;
          st1 = st\<lparr>sockets := (sockets st)(w := \<lparr>readyState = OPEN, sent = [], owner = sub\<rparr>),
                   socketCount := Suc w,
                   intervals := AList.update h (HEARTBEAT_INTERVAL, sub) (intervals st),
                   nextHandle := Suc h\<rparr>;
          st2 = st1\<lparr>tunnels := AList.update sub conn (tunnels st1)\<rparr>
      in ws_send w (TunnelAssigned sub link) st2)"

definition handleWebSocketConnection ::
  "IncomingMessage \<Rightarrow> (nat \<Rightarrow> nat \<Rightarrow> 8 word) \<Rightarrow> RelayServer \<Rightarrow> RelayServer option" where
  "handleWebSocketConnection rq rng st =
     (case resolveSubdomain rq rng st of
        None \<Rightarrow> None
      | Some sub \<Rightarrow> Some (register sub st))"

text \<open>
  The upgrade listener calls two libraries that are not part of the repository, and an
  upgrade brings with it what they make of the request. \<open>parsed\<close> is the result of
  \<open>new URL(req.url || '/', base)\<close>: the pathname of the URL, or \<open>None\<close> when the constructor
  throws a \<open>TypeError\<close> because it cannot parse its arguments. \<open>completes\<close> tells whether
  \<open>wss.handleUpgrade\<close> completes the handshake and calls back, or ends it on its own with
  an error reply without calling back.

  \<open>url_base\<close> is the base that the listener builds from the Host header; in its template
  literal a header that is absent reads \<open>undefined\<close>. The constructor parses the base
  first and throws when it has no host, whatever the other argument. That is the base of
  a request whose Host header is empty, so there the listener throws whatever \<open>parsed\<close>
  says; \<open>url_pathname\<close> is the result of the constructor with this case decided.
\<close>

definition url_base :: "IncomingMessage \<Rightarrow> string" where
  "url_base rq =
     ''http://'' @ (case header_string rq ''host'' of None \<Rightarrow> ''undefined'' | Some h \<Rightarrow> h)"

definition url_pathname :: "IncomingMessage \<Rightarrow> string option \<Rightarrow> string option" where
  "url_pathname rq parsed = (if url_base rq = ''http://'' then None else parsed)"

text \<open>
  What the upgrade listener does with the raw socket of the request: it throws before it
  has touched the socket, it destroys the socket, it writes a reply and destroys the
  socket, it leaves the socket to a WebSocket server that ends the handshake, or the
  handshake completes and \<open>handleWebSocketConnection\<close> runs.
\<close>

datatype upgrade_result = Threw | SocketDestroyed | Refused string | Aborted | Upgraded

definition CRLF :: string where
  "CRLF = [CHR 0x0D, CHR 0x0A]"

definition unauthorized_reply :: string where
  "unauthorized_reply = ''HTTP/1.1 401 Unauthorized'' @ CRLF @ CRLF"

definition limit_reply :: "RelayServer \<Rightarrow> string" where
  "limit_reply st =
     ''HTTP/1.1 503 Service Unavailable'' @ CRLF @ ''Content-Type: application/json'' @ CRLF @ CRLF
       @ stringify [(''error'', JString ''Max tunnel limit reached''),
                    (''limit'', JNumber (maxTunnels (config st)))]"

definition onUpgrade ::
  "IncomingMessage \<Rightarrow> string option \<Rightarrow> bool \<Rightarrow> (nat \<Rightarrow> nat \<Rightarrow> 8 word) \<Rightarrow> RelayServer
     \<Rightarrow> (upgrade_result \<times> RelayServer) option" where
  "onUpgrade rq parsed completes rng st =
     (case url_pathname rq parsed of
        None \<Rightarrow> Some (Threw, st)
      | Some pathname \<Rightarrow>
          if pathname \<noteq> ''/tunnel'' then Some (SocketDestroyed, st)
          else if \<not> validateApiKey (header_string rq ''x-api-key'') (apiKeys (config st))
          then Some (Refused unauthorized_reply, st)
          else if int (length (tunnels st)) \<ge> maxTunnels (config st)
          then Some (Refused (limit_reply st), st)
          else if \<not> completes then Some (Aborted, st)
          else (case handleWebSocketConnection rq rng st of
                  None \<Rightarrow> None
                | Some st' \<Rightarrow> Some (Upgraded, st')))"

subsection \<open>The relay as a transition system\<close>

text \<open>
  Everything that can happen to a running relay, and the handler each event runs. The
  relay has no state to go on from when a handler does not return, and when the upgrade
  listener throws: nothing catches that exception, and it ends the process.
\<close>

datatype event =
    HttpRequest IncomingMessage
  | Data nat bytes
  | End nat string
  | RequestError nat
  | TimeoutFired nat
  | Upgrade IncomingMessage "string option" bool "nat \<Rightarrow> nat \<Rightarrow> 8 word"
  | Message nat "WSMessage option"
  | SocketClosed nat
  | SocketError nat
  | HeartbeatFired nat
  | Stop

fun step :: "event \<Rightarrow> RelayServer \<Rightarrow> RelayServer option" where
  "step (HttpRequest rq) st = Some (handleHttpRequest rq st)"
| "step (Data i chunk) st = Some (onData i chunk st)"
| "step (End i uuid) st = Some (onEnd i uuid st)"
| "step (RequestError i) st = Some (onError i st)"
| "step (TimeoutFired h) st = Some (onTimeout h st)"
| "step (Upgrade rq parsed completes rng) st =
     (case onUpgrade rq parsed completes rng st of
        None \<Rightarrow> None
      | Some (out, st') \<Rightarrow> if out = Threw then None else Some st')"
| "step (Message w msg) st = Some (onMessage w msg st)"
| "step (SocketClosed w) st = Some (onClose w st)"
| "step (SocketError w) st = Some (onSocketError w st)"
| "step (HeartbeatFired h) st = Some (onHeartbeat h st)"
| "step Stop st = Some (stop st)"

fun run :: "event list \<Rightarrow> RelayServer \<Rightarrow> RelayServer option" where
  "run [] st = Some st"
| "run (e # es) st = (case step e st of None \<Rightarrow> None | Some st' \<Rightarrow> run es st')"

section \<open>client/tunnel-client\<close>

text \<open>
  The agent: the fields of the class (\<open>options\<close> after the constructor has filled in the
  defaults), the sockets it has created, the intervals that are armed and the events it has
  emitted to its listeners, oldest first.
\<close>

record TunnelOptions =
  opt_port :: nat
  opt_host :: string
  opt_subdomain :: string
  opt_server :: string
  opt_apiKey :: string
  opt_localHost :: string

datatype client_event = CloseEvent | ErrorEvent string | RequestEvent string string nat

record TunnelClient =
  cl_ws :: "nat option"
  cl_options :: TunnelOptions
  reconnectAttempts :: nat
  heartbeatInterval :: "nat option"
  closed :: bool
  cl_url :: string
  cl_subdomain :: string
  cl_sockets :: "nat \<Rightarrow> WebSocket"
  cl_intervals :: "nat list"
  emitted :: "client_event list"

definition emit :: "client_event \<Rightarrow> TunnelClient \<Rightarrow> TunnelClient" where
  "emit e c = c\<lparr>emitted := emitted c @ [e]\<rparr>"

definition close :: "TunnelClient \<Rightarrow> TunnelClient" where
  "close c =
     (let c1 = c\<lparr>closed := True\<rparr>;
          c2 = (case heartbeatInterval c1 of
                  None \<Rightarrow> c1
                | Some h \<Rightarrow> c1\<lparr>cl_intervals := removeAll h (cl_intervals c1),
                               heartbeatInterval := None\<rparr>);
          c3 = (case cl_ws c2 of
                  None \<Rightarrow> c2
                | Some w \<Rightarrow>
                    if readyState (cl_sockets c2 w) = OPEN
                    then c2\<lparr>cl_sockets :=
                              (cl_sockets c2)(w := (cl_sockets c2 w)\<lparr>readyState := CLOSING\<rparr>)\<rparr>
                    else c2);
          c4 = c3\<lparr>cl_ws := None\<rparr>
      in emit CloseEvent c4)"


definition local_headers :: "TunnelClient \<Rightarrow> TunnelRequest \<Rightarrow> (string \<times> string) list" where
  "local_headers c request =
     AList.delete ''upgrade''
       (AList.delete ''connection''
          (AList.update ''host''
             (opt_localHost (cl_options c) @ '':'' @ show_nat (opt_port (cl_options c)))
             (rq_headers request)))"




section \<open>Notions used by the properties\<close>

text \<open>A relay as the test suite configures it, and the handshake request of an agent.\<close>

definition test_config :: RelayServerConfig where
  "test_config =
     \<lparr>port = 14041, apiKeys = [''sk_test_key_123''], domain = ''tunnel.test.local'',
      maxTunnels = 1\<rparr>"

definition zero_rng :: "nat \<Rightarrow> nat \<Rightarrow> 8 word" where
  "zero_rng n i = 0"

definition handshake :: "string \<Rightarrow> string option \<Rightarrow> IncomingMessage" where
  "handshake key label =
     \<lparr>url = Some ''/tunnel'', http_method = Some ''GET'',
      headers = (''host'', Single ''tunnel.test.local'') # (''x-api-key'', Single key) #
                (case label of None \<Rightarrow> [] | Some l \<Rightarrow> [(''x-subdomain'', Single l)]),
      httpVersionMajor = 1, httpVersionMinor = 1\<rparr>"

text \<open>A handshake request with a wrong key whose Host header is empty.\<close>

definition hostless_handshake :: IncomingMessage where
  "hostless_handshake =
     \<lparr>url = Some ''/tunnel'', http_method = Some ''GET'',
      headers = [(''host'', Single []), (''x-api-key'', Single ''wrong_key'')],
      httpVersionMajor = 1, httpVersionMinor = 1\<rparr>"

text \<open>
  The handshake takes the requested label: the header \<open>x-subdomain\<close> is present, its value
  has the label syntax and no tunnel is registered under it.
\<close>

definition accepts_requested :: "IncomingMessage \<Rightarrow> RelayServer \<Rightarrow> bool" where
  "accepts_requested rq st =
     (case header_string rq ''x-subdomain'' of
        None \<Rightarrow> False
      | Some r \<Rightarrow> isValidSubdomain r \<and> \<not> has (tunnels st) r)"

text \<open>The hostname that \<open>handleHttpRequest\<close> routes by, and a public request.\<close>

definition hostname_of :: "IncomingMessage \<Rightarrow> string" where
  "hostname_of rq = split_colon_first (or_default (header_string rq ''host'') [])"

definition public_request :: "string \<Rightarrow> string \<Rightarrow> IncomingMessage" where
  "public_request host path =
     \<lparr>url = Some path, http_method = Some ''GET'', headers = [(''host'', Single host)],
      httpVersionMajor = 1, httpVersionMinor = 1\<rparr>"

text \<open>The request stream of exchange \<open>i\<close> delivers the chunks \<open>cs\<close>, one \<open>data\<close> event each.\<close>

definition feed :: "nat \<Rightarrow> bytes list \<Rightarrow> RelayServer \<Rightarrow> RelayServer" where
  "feed i cs st = fold (onData i) cs st"

definition too_large :: ServerWrite where
  "too_large =
     \<lparr>statusCode = 413, outHeaders = json_headers,
      content = Text (stringify [(''error'', JString ''Request body too large'')])\<rparr>"

text \<open>
  A whole ingress: the request arrives, its body arrives as the chunks \<open>cs\<close>, the stream
  ends. \<open>uuid\<close> is the correlation id that the \<open>end\<close> listener would mint.
\<close>

definition ingest :: "IncomingMessage \<Rightarrow> bytes list \<Rightarrow> string \<Rightarrow> RelayServer \<Rightarrow> RelayServer" where
  "ingest rq cs uuid st =
     onEnd (exchangeCount st) uuid (feed (exchangeCount st) cs (handleHttpRequest rq st))"

text \<open>
  The response frames that \<open>writeHead\<close> accepts, for a response to the request \<open>rq\<close>, once
  \<open>handleTunnelResponse\<close> has removed \<open>transfer-encoding\<close>; the relay after
  \<open>handleTunnelResponse\<close> has run on a frame, whether it returned or threw; what it writes
  for a frame that is accepted; what the timeout callback writes; and the facts that hold
  in every state a relay can reach: a response object has been written at most once, and
  not at all while its request is still being read; a pending entry refers to an exchange
  that exists and whose request has been read to its end; every armed timeout runs for
  \<open>REQUEST_TIMEOUT\<close>.
\<close>

definition accepted :: "IncomingMessage \<Rightarrow> TunnelResponse \<Rightarrow> bool" where
  "accepted rq r \<longleftrightarrow>
     \<not> writeHead_throws rq (rs_status r) (AList.delete ''transfer-encoding'' (rs_headers r))"

definition receive :: "TunnelResponse \<Rightarrow> RelayServer \<Rightarrow> RelayServer" where
  "receive r st = state_left (handleTunnelResponse r st)"

definition delivered :: "TunnelResponse \<Rightarrow> ServerWrite" where
  "delivered r =
     \<lparr>statusCode = nat (to_int32 (rs_status r)),
      outHeaders = AList.delete ''transfer-encoding'' (rs_headers r),
      content = (if truthy (rs_body r) then Binary (base64_decode (the (rs_body r))) else NoBody)\<rparr>"

definition timed_out :: ServerWrite where
  "timed_out =
     \<lparr>statusCode = 504, outHeaders = json_headers,
      content = Text (stringify [(''error'', JString ''Tunnel request timed out'')])\<rparr>"

definition inv :: "RelayServer \<Rightarrow> bool" where
  "inv st \<longleftrightarrow>
     (\<forall>i. length (written (exchanges st i)) \<le> 1
          \<and> (phase (exchanges st i) = Reading \<longrightarrow> written (exchanges st i) = []))
   \<and> (\<forall>k p. (k, p) \<in> set (pendingRequests st) \<longrightarrow>
          res p < exchangeCount st \<and> phase (exchanges st (res p)) \<noteq> Reading)
   \<and> (\<forall>h d k. (h, d, k) \<in> set (timeouts st) \<longrightarrow> d = REQUEST_TIMEOUT)"

text \<open>Two states agree on the exchanges, the pending table and the armed timeouts.\<close>

definition same_requests :: "RelayServer \<Rightarrow> RelayServer \<Rightarrow> bool" where
  "same_requests st st' \<longleftrightarrow>
     exchanges st' = exchanges st \<and> exchangeCount st' = exchangeCount st
     \<and> pendingRequests st' = pendingRequests st \<and> timeouts st' = timeouts st"

text \<open>
  A scenario: the agent \<open>myapp\<close> attaches, a public request for it arrives and is read to
  its end under the correlation id \<open>id-1\<close> (\<open>awaiting\<close> is the relay at that point), then the
  agent answers twice and the timer of the request is asked to fire.
\<close>

definition hello_request :: IncomingMessage where
  "hello_request = public_request ''myapp.tunnel.test.local'' ''/hello''"

definition hello_response :: TunnelResponse where
  "hello_response =
     \<lparr>rs_id = ''id-1'', rs_status = 200,
      rs_headers = [(''content-type'', ''text/plain''), (''transfer-encoding'', ''chunked'')],
      rs_body = Some ''SGk=''\<rparr>"

text \<open>A response frame for the same request whose status is not an HTTP status.\<close>

definition bad_response :: TunnelResponse where
  "bad_response = \<lparr>rs_id = ''id-1'', rs_status = 99, rs_headers = [], rs_body = None\<rparr>"

definition awaiting :: RelayServer where
  "awaiting = ingest hello_request [] ''id-1'' (register ''myapp'' (newRelayServer test_config))"

definition hello_events :: "event list" where
  "hello_events =
     [Upgrade (handshake ''sk_test_key_123'' (Some ''myapp'')) (Some ''/tunnel'') True zero_rng,
      HttpRequest hello_request,
      End 0 ''id-1'',
      Message 0 (Some (TunnelResponseMsg hello_response)),
      Message 0 (Some (TunnelResponseMsg hello_response)),
      TimeoutFired 1]"

text \<open>
  The same scenario with an agent that answers first with \<open>bad_response\<close>, whose status is
  99; then the timer of the request is asked to fire, and the agent answers again, now
  with \<open>hello_response\<close>.
\<close>

definition unanswered_events :: "event list" where
  "unanswered_events =
     [Upgrade (handshake ''sk_test_key_123'' (Some ''myapp'')) (Some ''/tunnel'') True zero_rng,
      HttpRequest hello_request,
      End 0 ''id-1'',
      Message 0 (Some (TunnelResponseMsg bad_response)),
      TimeoutFired 1,
      Message 0 (Some (TunnelResponseMsg hello_response))]"

text \<open>
  An exchange is proxied when its Host header selects a tunnel label. \<open>new_writes\<close> are the
  responses that a step has written to an exchange. \<open>appends S\<close> relates two states when
  every response object of the second is that of the first with responses added whose
  status codes are in \<open>S\<close>.
\<close>

definition proxied :: "RelayServer \<Rightarrow> nat \<Rightarrow> bool" where
  "proxied st i =
     (case extractSubdomain st (or_default (header_string (req (exchanges st i)) ''host'') []) of
        None \<Rightarrow> False
      | Some s \<Rightarrow> s \<noteq> [] \<and> s \<noteq> ''tunnel'')"

definition new_writes :: "RelayServer \<Rightarrow> RelayServer \<Rightarrow> nat \<Rightarrow> ServerWrite list" where
  "new_writes st st' i =
     (if i < exchangeCount st
      then drop (length (written (exchanges st i))) (written (exchanges st' i))
      else written (exchanges st' i))"

definition appends :: "nat set \<Rightarrow> RelayServer \<Rightarrow> RelayServer \<Rightarrow> bool" where
  "appends S st st' \<longleftrightarrow>
     (\<forall>i. \<exists>ws. written (exchanges st' i) = written (exchanges st i) @ ws
               \<and> statusCode ` set ws \<subseteq> S
               \<and> req (exchanges st' i) = req (exchanges st i))
     \<and> exchangeCount st' = exchangeCount st \<and> config st' = config st"

text \<open>
  The status codes that the handler of an event writes by itself, and the events that
  forward a response of the agent.
\<close>

fun statuses_of :: "event \<Rightarrow> nat set" where
  "statuses_of (HttpRequest rq) = {404, 502}"
| "statuses_of (Data i chunk) = {413}"
| "statuses_of (RequestError i) = {500}"
| "statuses_of (TimeoutFired h) = {504}"
| "statuses_of Stop = {503}"
| "statuses_of e = {}"

fun forwarding :: "event \<Rightarrow> bool" where
  "forwarding (Message w (Some (TunnelResponseMsg r))) = True"
| "forwarding e = False"






text \<open>An agent whose channel is open.\<close>

definition test_agent :: TunnelClient where
  "test_agent =
     \<lparr>cl_ws = Some 0,
      cl_options = \<lparr>opt_port = 3000, opt_host = ''localhost'', opt_subdomain = ''myapp'',
                    opt_server = ''ws://localhost:14041'', opt_apiKey = ''sk_test_key_123'',
                    opt_localHost = ''localhost''\<rparr>,
      reconnectAttempts = 0, heartbeatInterval = None, closed = False,
      cl_url = ''https://myapp.tunnel.test.local'', cl_subdomain = ''myapp'',
      cl_sockets = (\<lambda>a. \<lparr>readyState = OPEN, sent = []\<rparr>), cl_intervals = [],
      emitted = []\<rparr>"



section \<open>Regular expressions: the matcher decides the language\<close>

lemma nullable_lang: "nullable r \<longleftrightarrow> [] \<in> lang r"
  by (induction r) (auto intro: kleene.kleene_nil)

lemma kleene_cons_split:
  assumes "x \<in> kleene A" and "x = c # w"
  shows "\<exists>u v. w = u @ v \<and> c # u \<in> A \<and> v \<in> kleene A"
  using assms
proof (induction arbitrary: w rule: kleene.induct)
  case kleene_nil
  then show ?case by simp
next
  case (kleene_app u v)
  show ?case
  proof (cases u)
    case Nil
    with kleene_app show ?thesis by simp
  next
    case (Cons a u')
    with kleene_app.prems have "a = c" and "w = u' @ v" by simp_all
    with Cons kleene_app.hyps show ?thesis by blast
  qed
qed

lemma kleene_cons: "c # w \<in> kleene A \<longleftrightarrow> (\<exists>u v. w = u @ v \<and> c # u \<in> A \<and> v \<in> kleene A)"
proof
  assume "c # w \<in> kleene A"
  then show "\<exists>u v. w = u @ v \<and> c # u \<in> A \<and> v \<in> kleene A"
    by (rule kleene_cons_split) simp
next
  assume "\<exists>u v. w = u @ v \<and> c # u \<in> A \<and> v \<in> kleene A"
  then obtain u v where "w = u @ v" "c # u \<in> A" "v \<in> kleene A" by blast
  then have "(c # u) @ v \<in> kleene A" by (blast intro: kleene.kleene_app)
  with \<open>w = u @ v\<close> show "c # w \<in> kleene A" by simp
qed

lemma lang_deriv: "lang (deriv c r) = {w. c # w \<in> lang r}"
proof (induction r)
  case (Seq r s)
  then show ?case
    by (auto simp: nullable_lang Cons_eq_append_conv)
next
  case (Star r)
  then show ?case by (auto simp: kleene_cons)
qed auto

lemma regex_test_lang: "regex_test r w \<longleftrightarrow> w \<in> lang r"
  by (induction w arbitrary: r) (simp_all add: nullable_lang lang_deriv)

lemma kleene_singletons: "kleene {[c] | c. P c} = {w. \<forall>c \<in> set w. P c}"
proof (rule set_eqI, rule iffI)
  fix w assume "w \<in> kleene {[c] | c. P c}"
  then show "w \<in> {w. \<forall>c \<in> set w. P c}"
    by (induction rule: kleene.induct) auto
next
  fix w assume "w \<in> {w. \<forall>c \<in> set w. P c}"
  then have "\<forall>c \<in> set w. P c" by simp
  then show "w \<in> kleene {[c] | c. P c}"
  proof (induction w)
    case Nil
    show ?case by (rule kleene.kleene_nil)
  next
    case (Cons a w)
    then have "[a] \<in> {[c] | c. P c}" and "w \<in> kleene {[c] | c. P c}" by auto
    then have "[a] @ w \<in> kleene {[c] | c. P c}" by (rule kleene.kleene_app)
    then show ?case by simp
  qed
qed

lemma lang_SeqI: "u \<in> lang r \<Longrightarrow> v \<in> lang s \<Longrightarrow> u @ v \<in> lang (Seq r s)"
  by auto

lemma lang_Opt: "lang (Opt r) = insert [] (lang r)"
  by (auto simp: Opt_def)

section \<open>utils/subdomain: the label syntax\<close>

lemma in_alnum_class: "in_class alnum_class c \<longleftrightarrow> is_alnum c"
  by (auto simp: in_class_def alnum_class_def is_alnum_def is_lower_def is_digit_def)

lemma of_char_hyphen: "(of_char c :: nat) = 45 \<longleftrightarrow> c = CHR ''-''"
  using of_char_eq_iff [of c "CHR ''-''", where ?'a = nat] by simp

lemma in_label_class: "in_class label_class c \<longleftrightarrow> is_label_char c"
proof -
  have "((45::nat) \<le> of_char c \<and> (of_char c :: nat) \<le> 45) \<longleftrightarrow> c = CHR ''-''"
    using of_char_hyphen [of c] by auto
  then show ?thesis
    by (auto simp: in_class_def label_class_def is_label_char_def is_lower_def is_digit_def)
qed

lemma is_alnum_label: "is_alnum c \<Longrightarrow> is_label_char c"
  by (auto simp: is_alnum_def is_label_char_def)

lemma lang_Cls_alnum: "is_alnum c \<Longrightarrow> [c] \<in> lang (Cls alnum_class)"
  by (simp add: in_alnum_class)

lemma lang_subdomain_pattern:
  "s \<in> lang subdomain_pattern \<longleftrightarrow>
     s \<noteq> [] \<and> is_alnum (hd s) \<and> is_alnum (last s) \<and> (\<forall>c \<in> set s. is_label_char c)"
proof
  assume "s \<in> lang subdomain_pattern"
  then show "s \<noteq> [] \<and> is_alnum (hd s) \<and> is_alnum (last s) \<and> (\<forall>c \<in> set s. is_label_char c)"
    by (auto simp: subdomain_pattern_def Opt_def in_alnum_class in_label_class kleene_singletons
        is_alnum_label)
next
  assume a: "s \<noteq> [] \<and> is_alnum (hd s) \<and> is_alnum (last s) \<and> (\<forall>c \<in> set s. is_label_char c)"
  then obtain c t where s: "s = c # t" by (cases s) auto
  with a have "is_alnum c" by simp
  then have c: "[c] \<in> lang (Cls alnum_class)" by (rule lang_Cls_alnum)
  have "t \<in> lang (Opt (Seq (Star (Cls label_class)) (Cls alnum_class)))"
  proof (cases t rule: rev_cases)
    case Nil
    then show ?thesis by (simp add: lang_Opt)
  next
    case (snoc m l)
    with a s have "is_alnum l" and "\<forall>x \<in> set m. is_label_char x" by auto
    then have "m \<in> lang (Star (Cls label_class))" and "[l] \<in> lang (Cls alnum_class)"
      by (simp_all add: in_label_class in_alnum_class kleene_singletons)
    then have "m @ [l] \<in> lang (Seq (Star (Cls label_class)) (Cls alnum_class))"
      by (rule lang_SeqI)
    with snoc show ?thesis by (simp add: lang_Opt)
  qed
  with c have "[c] @ t \<in> lang subdomain_pattern"
    unfolding subdomain_pattern_def by (rule lang_SeqI)
  with s show "s \<in> lang subdomain_pattern" by simp
qed

text \<open>
  C7. \<open>isValidSubdomain s\<close> is true exactly when \<open>s\<close> has between 3 and 63 characters, each
  of them a lowercase letter, a digit or a hyphen, and the first and the last a letter or
  a digit.
\<close>

theorem isValidSubdomain_iff:
  "isValidSubdomain s \<longleftrightarrow>
     3 \<le> length s \<and> length s \<le> 63 \<and> (\<forall>c \<in> set s. is_label_char c) \<and>
     is_alnum (hd s) \<and> is_alnum (last s)"
proof (cases "length s < 3 \<or> length s > 63")
  case True
  then show ?thesis by (auto simp: isValidSubdomain_def)
next
  case False
  then have "isValidSubdomain s \<longleftrightarrow> s \<in> lang subdomain_pattern"
    by (simp add: isValidSubdomain_def regex_test_lang)
  with False show ?thesis
    by (auto simp: lang_subdomain_pattern)
qed

text \<open>
  The boundaries: lengths 3 and 63 are accepted, 2 and 64 are not; a hyphen is accepted
  inside a label and not at either end; an uppercase letter is not accepted.
\<close>

theorem isValidSubdomain_iff_witness:
  "isValidSubdomain ''abc'' \<and> isValidSubdomain (replicate 63 (CHR ''a''))
   \<and> \<not> isValidSubdomain ''ab'' \<and> \<not> isValidSubdomain (replicate 64 (CHR ''a''))
   \<and> \<not> isValidSubdomain ''-myapp'' \<and> \<not> isValidSubdomain ''myapp-''
   \<and> isValidSubdomain ''my-app'' \<and> \<not> isValidSubdomain ''MyApp''"
  using isValidSubdomain_iff [of "''abc''"] isValidSubdomain_iff [of "replicate 63 (CHR ''a'')"]
    isValidSubdomain_iff [of "''ab''"] isValidSubdomain_iff [of "replicate 64 (CHR ''a'')"]
    isValidSubdomain_iff [of "''-myapp''"] isValidSubdomain_iff [of "''myapp-''"]
    isValidSubdomain_iff [of "''my-app''"] isValidSubdomain_iff [of "''MyApp''"]
  by (simp add: is_label_char_def is_alnum_def is_lower_def is_digit_def)

section \<open>server/auth and the upgrade handler\<close>

lemma validateApiKey_member:
  "validateApiKey key validKeys \<longleftrightarrow> (\<exists>k. key = Some k \<and> k \<noteq> [] \<and> k \<in> set validKeys)"
  by (cases key) (auto simp: validateApiKey_def truthy_def)


lemma handshake_pathname: "url_pathname (handshake key label) parsed = parsed"
  by (simp add: url_pathname_def url_base_def handshake_def header_string_def)



text \<open>
  The two rejections of the upgrade listener. When the URL of the request has the path
  \<open>/tunnel\<close>, the relay answers 401 when the header \<open>x-api-key\<close> is missing or its value is
  not one of the configured keys, whatever the number of tunnels; when the key is valid and
  the number of tunnels has reached \<open>maxTunnels\<close> it answers 503 with a JSON body. In both
  cases the relay is left as it was: no entry in \<open>tunnels\<close>, no interval armed, the same
  number of tunnels.
\<close>

lemma rejections_on_tunnel_path:
  assumes "url_pathname rq parsed = Some ''/tunnel''"
  shows "((header_string rq ''x-api-key'' = None
       \<or> the (header_string rq ''x-api-key'') \<notin> set (apiKeys (config st)))
      \<longrightarrow> onUpgrade rq parsed completes rng st = Some (Refused unauthorized_reply, st))
   \<and> (validateApiKey (header_string rq ''x-api-key'') (apiKeys (config st))
        \<and> maxTunnels (config st) \<le> int (length (tunnels st))
      \<longrightarrow> onUpgrade rq parsed completes rng st = Some (Refused (limit_reply st), st))"
proof (intro conjI impI)
  assume "header_string rq ''x-api-key'' = None
       \<or> the (header_string rq ''x-api-key'') \<notin> set (apiKeys (config st))"
  then have "\<not> validateApiKey (header_string rq ''x-api-key'') (apiKeys (config st))"
    by (auto simp: validateApiKey_member)
  with assms show "onUpgrade rq parsed completes rng st = Some (Refused unauthorized_reply, st)"
    by (simp add: onUpgrade_def)
next
  assume "validateApiKey (header_string rq ''x-api-key'') (apiKeys (config st))
        \<and> maxTunnels (config st) \<le> int (length (tunnels st))"
  with assms show "onUpgrade rq parsed completes rng st = Some (Refused (limit_reply st), st)"
    by (simp add: onUpgrade_def)
qed

text \<open>A wrong key at an empty relay, and the right key at a relay that holds its one tunnel.\<close>

lemma rejections_of_the_tests:
  "onUpgrade (handshake ''wrong_key'' None) (Some ''/tunnel'') True zero_rng
       (newRelayServer test_config)
       = Some (Refused unauthorized_reply, newRelayServer test_config)
   \<and> onUpgrade (handshake ''sk_test_key_123'' None) (Some ''/tunnel'') True zero_rng
        (register ''myapp'' (newRelayServer test_config))
       = Some (Refused (limit_reply (register ''myapp'' (newRelayServer test_config))),
               register ''myapp'' (newRelayServer test_config))"
  using rejections_on_tunnel_path [OF handshake_pathname, of "''wrong_key''" None
      "newRelayServer test_config" True zero_rng]
    rejections_on_tunnel_path [OF handshake_pathname, of "''sk_test_key_123''" None
      "register ''myapp'' (newRelayServer test_config)" True zero_rng]
  by (simp add: handshake_def header_string_def newRelayServer_def test_config_def register_def
      ws_send_def update_socket_def validateApiKey_def truthy_def)

text \<open>
  When the URL constructor refuses its arguments the listener throws at once: the key is
  not read, nothing is written to the socket, the relay is as it was, and it has no next
  state. When the WebSocket server ends a handshake that the listener has let through,
  the relay is as it was.
\<close>

lemma onUpgrade_throws:
  assumes "url_pathname rq parsed = None"
  shows "onUpgrade rq parsed completes rng st = Some (Threw, st)"
    and "step (Upgrade rq parsed completes rng) st = None"
  using assms by (simp_all add: onUpgrade_def)

lemma onUpgrade_aborted:
  assumes "url_pathname rq parsed = Some ''/tunnel''"
    and "validateApiKey (header_string rq ''x-api-key'') (apiKeys (config st))"
    and "int (length (tunnels st)) < maxTunnels (config st)"
  shows "onUpgrade rq parsed False rng st = Some (Aborted, st)"
  using assms by (simp add: onUpgrade_def)

text \<open>
  C5. The claim fails at an upgrade request whose Host header is empty, whatever its path
  and its key. The base of its URL is \<open>http://\<close>, which has no host, so the URL
  constructor throws before the key is read: the relay does not answer 401, it writes
  nothing to the socket, and the exception ends it.
\<close>

theorem upgrade_without_host:
  assumes "header_string rq ''host'' = Some []"
  shows "url_base rq = ''http://''
       \<and> onUpgrade rq parsed completes rng st = Some (Threw, st)
       \<and> step (Upgrade rq parsed completes rng) st = None"
proof -
  from assms have base: "url_base rq = ''http://''"
    by (simp add: url_base_def)
  then have none: "url_pathname rq parsed = None"
    by (simp add: url_pathname_def)
  from none have "onUpgrade rq parsed completes rng st = Some (Threw, st)"
    by (rule onUpgrade_throws(1))
  moreover from none have "step (Upgrade rq parsed completes rng) st = None"
    by (rule onUpgrade_throws(2))
  ultimately show ?thesis using base by simp
qed

text \<open>
  An agent's handshake on \<open>/tunnel\<close> with a wrong key and an empty Host header, at the relay
  of the tests: no 401.
\<close>

theorem upgrade_without_host_witness:
  "url hostless_handshake = Some ''/tunnel''
   \<and> header_string hostless_handshake ''host'' = Some []
   \<and> \<not> validateApiKey (header_string hostless_handshake ''x-api-key'')
         (apiKeys (config (newRelayServer test_config)))
   \<and> onUpgrade hostless_handshake (Some ''/tunnel'') True zero_rng (newRelayServer test_config)
       = Some (Threw, newRelayServer test_config)
   \<and> onUpgrade hostless_handshake (Some ''/tunnel'') True zero_rng (newRelayServer test_config)
       \<noteq> Some (Refused unauthorized_reply, newRelayServer test_config)
   \<and> step (Upgrade hostless_handshake (Some ''/tunnel'') True zero_rng)
         (newRelayServer test_config) = None"
proof -
  have host: "header_string hostless_handshake ''host'' = Some []"
    by (simp add: hostless_handshake_def header_string_def)
  have key: "\<not> validateApiKey (header_string hostless_handshake ''x-api-key'')
               (apiKeys (config (newRelayServer test_config)))"
    by (simp add: hostless_handshake_def header_string_def validateApiKey_def truthy_def
        newRelayServer_def test_config_def)
  have target: "url hostless_handshake = Some ''/tunnel''"
    by (simp add: hostless_handshake_def)
  from upgrade_without_host [OF host, of "Some ''/tunnel''" True zero_rng "newRelayServer test_config"]
    target host key
  show ?thesis by simp
qed

section \<open>utils/subdomain: minted labels\<close>

lemma generateSubdomain_chars:
  "generateSubdomain bytes = map (\<lambda>i. CHARS ! (unat (bytes i) mod length CHARS)) [0, 1, 2, 3, 4, 5, 6, 7]"
  by (simp add: generateSubdomain_def eval_nat_numeral)

lemma CHARS_alnum: "k < length CHARS \<Longrightarrow> is_alnum (CHARS ! k)"
proof -
  have "\<forall>c \<in> set CHARS. is_alnum c"
    by (simp add: CHARS_def is_alnum_def is_lower_def is_digit_def)
  then show "k < length CHARS \<Longrightarrow> is_alnum (CHARS ! k)"
    by simp
qed

lemma length_CHARS: "length CHARS = 36"
  by (simp add: CHARS_def)

lemma generateSubdomain_length: "length (generateSubdomain bytes) = 8"
  by (simp add: generateSubdomain_chars)

lemma generateSubdomain_alnum: "c \<in> set (generateSubdomain bytes) \<Longrightarrow> is_alnum c"
  unfolding generateSubdomain_chars
  by (auto intro!: CHARS_alnum simp: length_CHARS)

lemma generateSubdomain_valid: "isValidSubdomain (generateSubdomain bytes)"
proof -
  let ?s = "generateSubdomain bytes"
  have ne: "?s \<noteq> []" using generateSubdomain_length [of bytes] by auto
  then have "hd ?s \<in> set ?s" and "last ?s \<in> set ?s" by simp_all
  then have "is_alnum (hd ?s)" and "is_alnum (last ?s)"
    by (simp_all add: generateSubdomain_alnum)
  moreover have "\<forall>c \<in> set ?s. is_label_char c"
    by (simp add: generateSubdomain_alnum is_alnum_label)
  ultimately have "?s \<in> lang subdomain_pattern"
    using ne by (simp add: lang_subdomain_pattern)
  then show ?thesis
    by (simp add: isValidSubdomain_def regex_test_lang generateSubdomain_length)
qed

lemma mint_loop_finds:
  "\<not> has ts (generateSubdomain (rng (n + k))) \<Longrightarrow>
   \<exists>j \<le> k. mint_loop ts rng n = Some (generateSubdomain (rng (n + j)))
          \<and> \<not> has ts (generateSubdomain (rng (n + j)))"
proof (induction k arbitrary: n)
  case 0
  then show ?case by (subst mint_loop.simps) simp
next
  case (Suc k)
  show ?case
  proof (cases "has ts (generateSubdomain (rng n))")
    case False
    then have "mint_loop ts rng n = Some (generateSubdomain (rng (n + 0)))"
      by (subst mint_loop.simps) simp
    with False show ?thesis by (intro exI [of _ 0]) simp
  next
    case True
    from Suc.prems have "\<not> has ts (generateSubdomain (rng (Suc n + k)))" by simp
    from Suc.IH [OF this] obtain j where j: "j \<le> k"
      "mint_loop ts rng (Suc n) = Some (generateSubdomain (rng (Suc n + j)))"
      "\<not> has ts (generateSubdomain (rng (Suc n + j)))" by blast
    from True have "mint_loop ts rng n = mint_loop ts rng (Suc n)"
      by (subst mint_loop.simps) simp
    with j show ?thesis by (intro exI [of _ "Suc j"]) simp
  qed
qed

lemma mint_loop_result:
  "mint_loop ts rng n = Some s \<Longrightarrow> \<not> has ts s \<and> (\<exists>j. s = generateSubdomain (rng j))"
proof (erule mint_loop.raw_induct [rotated])
  fix f ts' rng' n' s'
  assume ih: "\<And>ts rng n s. f ts rng n = Some s \<Longrightarrow>
                 \<not> has ts s \<and> (\<exists>j. s = generateSubdomain (rng j))"
    and eq: "(let sub = generateSubdomain (rng' n')
              in if has ts' sub then f ts' rng' (Suc n') else Some sub) = Some s'"
  show "\<not> has ts' s' \<and> (\<exists>j. s' = generateSubdomain (rng' j))"
  proof (cases "has ts' (generateSubdomain (rng' n'))")
    case True
    with eq have "f ts' rng' (Suc n') = Some s'" by simp
    then show ?thesis by (rule ih)
  next
    case False
    with eq have "s' = generateSubdomain (rng' n')" by simp
    with False show ?thesis by auto
  qed
qed

lemma mint_loop_never:
  "(\<forall>j. has ts (generateSubdomain (rng j))) \<Longrightarrow> mint_loop ts rng n = None"
  using mint_loop_result [of ts rng n] by (cases "mint_loop ts rng n") auto

section \<open>The handshake\<close>

lemma resolveSubdomain_requested:
  "accepts_requested rq st \<Longrightarrow>
   \<exists>r. header_string rq ''x-subdomain'' = Some r \<and> resolveSubdomain rq rng st = Some r"
proof -
  assume "accepts_requested rq st"
  then obtain r where r: "header_string rq ''x-subdomain'' = Some r" "isValidSubdomain r"
    "\<not> has (tunnels st) r"
    by (auto simp: accepts_requested_def split: option.splits)
  from r(2) have "r \<noteq> []" by (auto simp: isValidSubdomain_def)
  with r have "resolveSubdomain rq rng st = Some r"
    by (simp add: resolveSubdomain_def truthy_def)
  with r show ?thesis by simp
qed

lemma resolveSubdomain_minted:
  "\<not> accepts_requested rq st \<Longrightarrow> resolveSubdomain rq rng st = mint_loop (tunnels st) rng 0"
  by (auto simp: accepts_requested_def resolveSubdomain_def truthy_def Let_def split: option.splits)

lemma minted_not_requested:
  assumes "\<not> accepts_requested rq st" and "\<not> has (tunnels st) (generateSubdomain b)"
  shows "header_string rq ''x-subdomain'' \<noteq> Some (generateSubdomain b)"
  using assms generateSubdomain_valid [of b]
  by (auto simp: accepts_requested_def)

lemma register_tunnel:
  "map_of (tunnels (register l st)) l
     = Some \<lparr>ws = socketCount st, subdomain = l, heartbeat = nextHandle st, alive = True\<rparr>"
  by (simp add: register_def ws_send_def update_socket_def Let_def update_conv')

lemma register_frame:
  "sent (sockets (register l st) (socketCount st))
     = [TunnelAssigned l (''https://'' @ l @ ''.'' @ domain (config st))]"
  by (simp add: register_def ws_send_def update_socket_def Let_def)

text \<open>
  C4. At handshake the relay assigns the requested label exactly when the header
  \<open>x-subdomain\<close> is present, its value has the label syntax and no tunnel is registered
  under it. In every other case it assigns a generated label: 8 characters, each a
  lowercase letter or a digit, not a key of \<open>tunnels\<close> before the insertion. The
  generated label is the first unused one that the random source draws, so the source has
  to draw one (\<open>mint_loop_never\<close>: the loop does not end otherwise).
\<close>

theorem handshake_label:
  assumes "accepts_requested rq st \<or> (\<exists>n. \<not> has (tunnels st) (generateSubdomain (rng n)))"
  shows "\<exists>label.
           handleWebSocketConnection rq rng st = Some (register label st)
         \<and> has (tunnels (register label st)) label
         \<and> sent (sockets (register label st) (socketCount st))
             = [TunnelAssigned label (''https://'' @ label @ ''.'' @ domain (config st))]
         \<and> (accepts_requested rq st \<longrightarrow> header_string rq ''x-subdomain'' = Some label)
         \<and> (\<not> accepts_requested rq st \<longrightarrow>
               header_string rq ''x-subdomain'' \<noteq> Some label
             \<and> length label = 8 \<and> (\<forall>c \<in> set label. is_alnum c)
             \<and> \<not> has (tunnels st) label)"
proof (cases "accepts_requested rq st")
  case True
  then obtain r where "header_string rq ''x-subdomain'' = Some r"
    and "resolveSubdomain rq rng st = Some r"
    using resolveSubdomain_requested by blast
  with True show ?thesis
    by (intro exI [of _ r])
       (simp add: handleWebSocketConnection_def register_frame register_tunnel has_def)
next
  case False
  with assms obtain n where "\<not> has (tunnels st) (generateSubdomain (rng (0 + n)))" by auto
  from mint_loop_finds [of "tunnels st" rng 0 n, OF this] obtain j
    where j: "mint_loop (tunnels st) rng 0 = Some (generateSubdomain (rng (0 + j)))"
      "\<not> has (tunnels st) (generateSubdomain (rng (0 + j)))" by blast
  let ?l = "generateSubdomain (rng j)"
  from False j have "handleWebSocketConnection rq rng st = Some (register ?l st)"
    by (simp add: handleWebSocketConnection_def resolveSubdomain_minted)
  moreover from False j have "header_string rq ''x-subdomain'' \<noteq> Some ?l"
    by (simp add: minted_not_requested)
  moreover have "length ?l = 8" and "\<forall>c \<in> set ?l. is_alnum c"
    by (simp_all add: generateSubdomain_length generateSubdomain_alnum)
  ultimately show ?thesis
    using False j
    by (intro exI [of _ ?l]) (simp add: register_frame register_tunnel has_def)
qed

lemma zero_label: "generateSubdomain (zero_rng n) = ''aaaaaaaa''"
  by (simp add: generateSubdomain_chars zero_rng_def CHARS_def)

lemma valid_myapp: "isValidSubdomain ''myapp''"
  by (simp add: isValidSubdomain_def subdomain_pattern_def Opt_def in_class_def alnum_class_def
      label_class_def)

text \<open>
  The label \<open>myapp\<close> at an empty relay, and again once it is taken, with a random source
  that draws zero bytes.
\<close>

theorem handshake_label_witness:
  "accepts_requested (handshake ''sk_test_key_123'' (Some ''myapp'')) (newRelayServer test_config)
   \<and> handleWebSocketConnection (handshake ''sk_test_key_123'' (Some ''myapp'')) zero_rng
        (newRelayServer test_config)
       = Some (register ''myapp'' (newRelayServer test_config))
   \<and> \<not> accepts_requested (handshake ''sk_test_key_123'' (Some ''myapp''))
         (register ''myapp'' (newRelayServer test_config))
   \<and> \<not> has (tunnels (register ''myapp'' (newRelayServer test_config)))
         (generateSubdomain (zero_rng 0))
   \<and> handleWebSocketConnection (handshake ''sk_test_key_123'' (Some ''myapp'')) zero_rng
        (register ''myapp'' (newRelayServer test_config))
       = Some (register ''aaaaaaaa'' (register ''myapp'' (newRelayServer test_config)))"
proof -
  let ?rq = "handshake ''sk_test_key_123'' (Some ''myapp'')"
  let ?st0 = "newRelayServer test_config"
  let ?st1 = "register ''myapp'' ?st0"
  have hdr: "header_string ?rq ''x-subdomain'' = Some ''myapp''"
    by (simp add: handshake_def header_string_def)
  have acc0: "accepts_requested ?rq ?st0"
    by (simp add: accepts_requested_def hdr valid_myapp has_def newRelayServer_def)
  have acc1: "\<not> accepts_requested ?rq ?st1"
    by (simp add: accepts_requested_def hdr has_def register_tunnel)
  have free: "\<not> has (tunnels ?st1) (generateSubdomain (zero_rng 0))"
    by (simp add: zero_label has_def register_def ws_send_def update_socket_def
        newRelayServer_def)
  from handshake_label [of ?rq ?st0 zero_rng] acc0 hdr
  have first: "handleWebSocketConnection ?rq zero_rng ?st0 = Some (register ''myapp'' ?st0)"
    by auto
  have "resolveSubdomain ?rq zero_rng ?st1 = Some ''aaaaaaaa''"
    using acc1 free
    by (simp add: resolveSubdomain_minted mint_loop.simps [of _ _ 0] zero_label)
  then have second: "handleWebSocketConnection ?rq zero_rng ?st1 = Some (register ''aaaaaaaa'' ?st1)"
    by (simp add: handleWebSocketConnection_def)
  from acc0 first acc1 free second show ?thesis by blast
qed

section \<open>Routing by the Host header\<close>

lemma extractSubdomain_label:
  assumes "split_colon_first host = s @ ''.'' @ domain (config st)"
  shows "extractSubdomain st host = Some s"
proof -
  let ?d = "domain (config st)"
  let ?h = "s @ ''.'' @ ?d"
  have "?h \<noteq> ?d"
  proof
    assume "?h = ?d"
    then have "length ?h = length ?d" by simp
    then show False by simp
  qed
  moreover have "endsWith ?h (''.'' @ ?d)"
    by (simp add: endsWith_def)
  moreover have "slice_off_end ?h (length ?d + 1) = s"
    by (simp add: slice_off_end_def)
  ultimately show ?thesis
    using assms by (simp add: extractSubdomain_def Let_def)
qed

lemma extractSubdomain_none:
  assumes "split_colon_first host = domain (config st)
           \<or> \<not> endsWith (split_colon_first host) (''.'' @ domain (config st))"
  shows "extractSubdomain st host = None"
  using assms by (auto simp: extractSubdomain_def Let_def)

lemma config_open_exchange [simp]: "config (open_exchange rq st) = config st"
  by (simp add: open_exchange_def)

lemma tunnels_open_exchange [simp]: "tunnels (open_exchange rq st) = tunnels st"
  by (simp add: open_exchange_def)

lemma sockets_open_exchange [simp]: "sockets (open_exchange rq st) = sockets st"
  by (simp add: open_exchange_def)

lemma extractSubdomain_open_exchange [simp]:
  "extractSubdomain (open_exchange rq st) host = extractSubdomain st host"
  by (simp add: extractSubdomain_def)

lemma handleHttpRequest_operational:
  assumes "extractSubdomain st (or_default (header_string rq ''host'') []) = sub"
    and "sub = None \<or> sub = Some [] \<or> sub = Some ''tunnel''"
  shows "handleHttpRequest rq st = operational (exchangeCount st) rq (open_exchange rq st)"
  using assms by (auto simp: handleHttpRequest_def Let_def truthy_def)

lemma handleHttpRequest_routed:
  assumes "extractSubdomain st (or_default (header_string rq ''host'') []) = Some s"
    and "s \<noteq> []" and "s \<noteq> ''tunnel''"
  shows "handleHttpRequest rq st =
     (case map_of (tunnels st) s of
        None \<Rightarrow>
          respond (exchangeCount st) 404 json_headers
            (Text (stringify [(''error'', JString ''Tunnel not found''), (''subdomain'', JString s)]))
            (open_exchange rq st)
      | Some t \<Rightarrow>
          if readyState (sockets st (ws t)) \<noteq> OPEN
          then removeTunnel s
                 (respond (exchangeCount st) 502 json_headers
                    (Text (stringify [(''error'', JString ''Tunnel client disconnected'')]))
                    (open_exchange rq st))
          else update_exchange (exchangeCount st) (\<lambda>x. x\<lparr>tunnel_ws := ws t, phase := Reading\<rparr>)
                 (open_exchange rq st))"
  using assms by (simp add: handleHttpRequest_def Let_def truthy_def split: option.splits)

text \<open>
  C3, as amended. Let the hostname be the Host header up to its first colon. When it is
  \<open>s.<domain>\<close> for a label \<open>s\<close> that is neither empty nor \<open>tunnel\<close>, the relay looks \<open>s\<close> up
  in \<open>tunnels\<close>: without an entry it answers 404 with a JSON body naming \<open>s\<close>; with an
  entry whose socket is not open it answers 502 and removes the entry; otherwise it starts
  reading the body for that tunnel. When the hostname is the domain itself, is empty, does
  not end in \<open>.<domain>\<close>, or is \<open>.<domain>\<close> or \<open>tunnel.<domain>\<close>, the relay serves the
  health endpoint or the banner.
\<close>

theorem routing_by_host:
  "(hostname_of rq = s @ ''.'' @ domain (config st) \<and> s \<noteq> [] \<and> s \<noteq> ''tunnel'' \<longrightarrow>
      handleHttpRequest rq st =
        (case map_of (tunnels st) s of
           None \<Rightarrow>
             respond (exchangeCount st) 404 json_headers
               (Text (stringify [(''error'', JString ''Tunnel not found''),
                                 (''subdomain'', JString s)]))
               (open_exchange rq st)
         | Some t \<Rightarrow>
             if readyState (sockets st (ws t)) \<noteq> OPEN
             then removeTunnel s
                    (respond (exchangeCount st) 502 json_headers
                       (Text (stringify [(''error'', JString ''Tunnel client disconnected'')]))
                       (open_exchange rq st))
             else update_exchange (exchangeCount st)
                    (\<lambda>x. x\<lparr>tunnel_ws := ws t, phase := Reading\<rparr>) (open_exchange rq st)))
   \<and> (hostname_of rq = domain (config st) \<or> hostname_of rq = []
        \<or> \<not> endsWith (hostname_of rq) (''.'' @ domain (config st))
        \<or> hostname_of rq = ''.'' @ domain (config st)
        \<or> hostname_of rq = ''tunnel'' @ ''.'' @ domain (config st) \<longrightarrow>
      handleHttpRequest rq st = operational (exchangeCount st) rq (open_exchange rq st))"
proof (intro conjI impI)
  assume "hostname_of rq = s @ ''.'' @ domain (config st) \<and> s \<noteq> [] \<and> s \<noteq> ''tunnel''"
  then have "extractSubdomain st (or_default (header_string rq ''host'') []) = Some s"
    and "s \<noteq> []" and "s \<noteq> ''tunnel''"
    by (simp_all add: hostname_of_def extractSubdomain_label)
  then show "handleHttpRequest rq st =
        (case map_of (tunnels st) s of
           None \<Rightarrow>
             respond (exchangeCount st) 404 json_headers
               (Text (stringify [(''error'', JString ''Tunnel not found''),
                                 (''subdomain'', JString s)]))
               (open_exchange rq st)
         | Some t \<Rightarrow>
             if readyState (sockets st (ws t)) \<noteq> OPEN
             then removeTunnel s
                    (respond (exchangeCount st) 502 json_headers
                       (Text (stringify [(''error'', JString ''Tunnel client disconnected'')]))
                       (open_exchange rq st))
             else update_exchange (exchangeCount st)
                    (\<lambda>x. x\<lparr>tunnel_ws := ws t, phase := Reading\<rparr>) (open_exchange rq st))"
    by (rule handleHttpRequest_routed)
next
  let ?host = "or_default (header_string rq ''host'') []"
  let ?d = "domain (config st)"
  assume a: "hostname_of rq = ?d \<or> hostname_of rq = []
        \<or> \<not> endsWith (hostname_of rq) (''.'' @ ?d)
        \<or> hostname_of rq = ''.'' @ ?d
        \<or> hostname_of rq = ''tunnel'' @ ''.'' @ ?d"
  have "extractSubdomain st ?host = None \<or> extractSubdomain st ?host = Some []
        \<or> extractSubdomain st ?host = Some ''tunnel''"
  proof -
    consider "hostname_of rq = ?d \<or> \<not> endsWith (hostname_of rq) (''.'' @ ?d)"
      | "hostname_of rq = [] @ ''.'' @ ?d" | "hostname_of rq = ''tunnel'' @ ''.'' @ ?d"
      | "hostname_of rq = []" "endsWith (hostname_of rq) (''.'' @ ?d)"
      using a by (cases "endsWith (hostname_of rq) (''.'' @ ?d)") auto
    then show ?thesis
    proof cases
      case 1
      then show ?thesis by (simp add: hostname_of_def extractSubdomain_none)
    next
      case 2
      then have "extractSubdomain st ?host = Some []"
        unfolding hostname_of_def by (rule extractSubdomain_label)
      then show ?thesis by simp
    next
      case 3
      then have "extractSubdomain st ?host = Some ''tunnel''"
        unfolding hostname_of_def by (rule extractSubdomain_label)
      then show ?thesis by simp
    next
      case 4
      then show ?thesis by (simp add: endsWith_def)
    qed
  qed
  then show "handleHttpRequest rq st = operational (exchangeCount st) rq (open_exchange rq st)"
    using handleHttpRequest_operational by blast
qed


lemmas eval_routing =
  handleHttpRequest_def extractSubdomain_def split_colon_first_def endsWith_def slice_off_end_def
  or_default_def header_string_def public_request_def hostname_of_def truthy_def
  operational_def respond_def update_exchange_def open_exchange_def newRelayServer_def
  test_config_def Let_def

text \<open>An unknown subdomain with a port in the Host header, and the health endpoint.\<close>

theorem routing_by_host_witness:
  "hostname_of (public_request ''unknown.tunnel.test.local:8080'' ''/test'')
     = ''unknown'' @ ''.'' @ domain (config (newRelayServer test_config))
   \<and> written (exchanges (handleHttpRequest
         (public_request ''unknown.tunnel.test.local:8080'' ''/test'')
         (newRelayServer test_config)) 0)
     = [\<lparr>statusCode = 404, outHeaders = json_headers,
         content = Text (stringify [(''error'', JString ''Tunnel not found''),
                                    (''subdomain'', JString ''unknown'')])\<rparr>]
   \<and> hostname_of (public_request ''tunnel.test.local'' ''/health'')
     = domain (config (newRelayServer test_config))
   \<and> map statusCode (written (exchanges (handleHttpRequest
         (public_request ''tunnel.test.local'' ''/health'') (newRelayServer test_config)) 0))
     = [200]"
proof -
  let ?st = "newRelayServer test_config"
  let ?rq1 = "public_request ''unknown.tunnel.test.local:8080'' ''/test''"
  let ?rq2 = "public_request ''tunnel.test.local'' ''/health''"
  have h1: "hostname_of ?rq1 = ''unknown'' @ ''.'' @ domain (config ?st)"
    by (simp add: eval_routing)
  have h2: "hostname_of ?rq2 = domain (config ?st)"
    by (simp add: eval_routing)
  have t: "map_of (tunnels ?st) ''unknown'' = None" "exchangeCount ?st = 0"
    by (simp_all add: newRelayServer_def)
  from routing_by_host [of ?rq1 "''unknown''" ?st] h1 t
  have "handleHttpRequest ?rq1 ?st
          = respond 0 404 json_headers
              (Text (stringify [(''error'', JString ''Tunnel not found''),
                                (''subdomain'', JString ''unknown'')]))
              (open_exchange ?rq1 ?st)"
    by simp
  then have w1: "written (exchanges (handleHttpRequest ?rq1 ?st) 0)
     = [\<lparr>statusCode = 404, outHeaders = json_headers,
         content = Text (stringify [(''error'', JString ''Tunnel not found''),
                                    (''subdomain'', JString ''unknown'')])\<rparr>]"
    by (simp add: respond_def update_exchange_def open_exchange_def newRelayServer_def)
  from routing_by_host [of ?rq2 "[]" ?st] h2 t
  have "handleHttpRequest ?rq2 ?st = operational 0 ?rq2 (open_exchange ?rq2 ?st)"
    by simp
  then have w2: "map statusCode (written (exchanges (handleHttpRequest ?rq2 ?st) 0)) = [200]"
    by (simp add: operational_def respond_def update_exchange_def open_exchange_def
        newRelayServer_def public_request_def)
  from h1 w1 h2 w2 show ?thesis by blast
qed

text \<open>
  The claim as written fails for the label \<open>tunnel\<close>: with no tunnel registered under it,
  a request for \<open>tunnel.tunnel.test.local\<close> is answered with the banner and status 200, not
  with 404.
\<close>

theorem routing_by_host_counterexample:
  "hostname_of (public_request ''tunnel.tunnel.test.local'' ''/test'')
     = ''tunnel'' @ ''.'' @ domain (config (newRelayServer test_config))
   \<and> map_of (tunnels (newRelayServer test_config)) ''tunnel'' = None
   \<and> written (exchanges (handleHttpRequest
         (public_request ''tunnel.tunnel.test.local'' ''/test'') (newRelayServer test_config)) 0)
     = [\<lparr>statusCode = 200, outHeaders = [(''Content-Type'', ''text/plain'')],
         content = Text ''@gagandeep023/expose-tunnel relay server''\<rparr>]"
  by (simp add: eval_routing)

section \<open>The body cap\<close>

lemmas relay_defs =
  update_exchange_def update_socket_def respond_def ws_send_def ws_close_def ws_terminate_def
  clearTimeout_def clearInterval_def open_exchange_def writableEnded_def

lemma update_exchange_twice:
  "update_exchange i f (update_exchange i g st) = update_exchange i (\<lambda>x. f (g x)) st"
  by (simp add: update_exchange_def)

lemma update_exchange_same: "f (exchanges st i) = exchanges st i \<Longrightarrow> update_exchange i f st = st"
  by (simp add: update_exchange_def)

lemma exchanges_removeTunnel [simp]: "exchanges (removeTunnel s st) = exchanges st"
  by (simp add: removeTunnel_def relay_defs Let_def split: option.splits)

lemma phase_operational [simp]:
  "phase (exchanges (operational i rq st) j) = phase (exchanges st j)"
  by (simp add: operational_def relay_defs)

lemma handleHttpRequest_reading:
  assumes "phase (exchanges (handleHttpRequest rq st) (exchangeCount st)) = Reading"
  shows "\<exists>w. handleHttpRequest rq st
               = update_exchange (exchangeCount st) (\<lambda>x. x\<lparr>tunnel_ws := w, phase := Reading\<rparr>)
                   (open_exchange rq st)
             \<and> readyState (sockets st w) = OPEN"
proof -
  let ?sub = "extractSubdomain st (or_default (header_string rq ''host'') [])"
  let ?i = "exchangeCount st"
  have fresh: "phase (exchanges (open_exchange rq st) ?i) = Answered"
    by (simp add: open_exchange_def)
  show ?thesis
  proof (cases "?sub = None \<or> ?sub = Some [] \<or> ?sub = Some ''tunnel''")
    case True
    then have "handleHttpRequest rq st = operational ?i rq (open_exchange rq st)"
      by (intro handleHttpRequest_operational) simp_all
    with assms fresh show ?thesis by simp
  next
    case False
    then obtain s where s: "?sub = Some s" "s \<noteq> []" "s \<noteq> ''tunnel''" by auto
    note routed = handleHttpRequest_routed [OF s]
    show ?thesis
    proof (cases "map_of (tunnels st) s")
      case None
      with routed assms fresh show ?thesis by (simp add: relay_defs)
    next
      case (Some t)
      show ?thesis
      proof (cases "readyState (sockets st (ws t)) = OPEN")
        case True
        with routed Some have "handleHttpRequest rq st
               = update_exchange ?i (\<lambda>x. x\<lparr>tunnel_ws := ws t, phase := Reading\<rparr>)
                   (open_exchange rq st)
             \<and> readyState (sockets st (ws t)) = OPEN" by simp
        then show ?thesis by (rule exI)
      next
        case False
        with routed Some assms fresh show ?thesis by (simp add: relay_defs)
      qed
    qed
  qed
qed

lemma onData_accept:
  assumes "i < exchangeCount st" and "phase (exchanges st i) = Reading"
    and "bodySize (exchanges st i) + length c \<le> MAX_BODY_SIZE"
  shows "onData i c st
           = update_exchange i
               (\<lambda>x. x\<lparr>bodySize := bodySize x + length c, chunks := chunks x @ [c]\<rparr>) st"
  using assms by (simp add: onData_def relay_defs Let_def)

lemma onData_reject:
  assumes "i < exchangeCount st" and "phase (exchanges st i) = Reading"
    and "bodySize (exchanges st i) + length c > MAX_BODY_SIZE"
  shows "onData i c st
           = update_exchange i
               (\<lambda>x. x\<lparr>bodySize := bodySize x + length c, written := written x @ [too_large],
                      phase := Destroyed\<rparr>) st"
  using assms by (simp add: onData_def relay_defs too_large_def Let_def)

lemma feed_idle: "phase (exchanges st i) \<noteq> Reading \<Longrightarrow> feed i cs st = st"
  by (induction cs) (simp_all add: feed_def onData_def)

lemma feed_Cons: "feed i (c # cs) st = feed i cs (onData i c st)"
  by (simp add: feed_def)

lemma feed_accept:
  assumes "i < exchangeCount st" and "phase (exchanges st i) = Reading"
    and "bodySize (exchanges st i) + length (concat cs) \<le> MAX_BODY_SIZE"
  shows "feed i cs st
           = update_exchange i
               (\<lambda>x. x\<lparr>bodySize := bodySize x + length (concat cs), chunks := chunks x @ cs\<rparr>) st"
  using assms
proof (induction cs arbitrary: st)
  case Nil
  then show ?case by (simp add: feed_def update_exchange_same)
next
  case (Cons c cs)
  let ?st = "onData i c st"
  from Cons.prems have step: "?st = update_exchange i
               (\<lambda>x. x\<lparr>bodySize := bodySize x + length c, chunks := chunks x @ [c]\<rparr>) st"
    by (intro onData_accept) simp_all
  with Cons.prems have "i < exchangeCount ?st" "phase (exchanges ?st i) = Reading"
    "bodySize (exchanges ?st i) + length (concat cs) \<le> MAX_BODY_SIZE"
    by (simp_all add: update_exchange_def)
  from Cons.IH [OF this] step show ?case
    by (simp add: feed_Cons update_exchange_twice add.assoc)
qed

lemma feed_reject:
  assumes "i < exchangeCount st" and "phase (exchanges st i) = Reading"
    and "bodySize (exchanges st i) + length (concat cs) > MAX_BODY_SIZE"
    and "bodySize (exchanges st i) \<le> MAX_BODY_SIZE"
  shows "\<exists>n ks. feed i cs st
           = update_exchange i
               (\<lambda>x. x\<lparr>bodySize := n, chunks := ks, written := written x @ [too_large],
                      phase := Destroyed\<rparr>) st"
  using assms
proof (induction cs arbitrary: st)
  case Nil
  then show ?case by simp
next
  case (Cons c cs)
  let ?st = "onData i c st"
  show ?case
  proof (cases "bodySize (exchanges st i) + length c > MAX_BODY_SIZE")
    case True
    with Cons.prems have step: "?st = update_exchange i
               (\<lambda>x. x\<lparr>bodySize := bodySize x + length c, written := written x @ [too_large],
                      phase := Destroyed\<rparr>) st"
      by (intro onData_reject) simp_all
    then have "phase (exchanges ?st i) \<noteq> Reading" by (simp add: update_exchange_def)
    then have "feed i (c # cs) st = ?st" by (simp add: feed_Cons feed_idle)
    with step have "feed i (c # cs) st = update_exchange i
               (\<lambda>x. x\<lparr>bodySize := bodySize (exchanges st i) + length c,
                      chunks := chunks (exchanges st i), written := written x @ [too_large],
                      phase := Destroyed\<rparr>) st"
      by (simp add: update_exchange_def)
    then show ?thesis by blast
  next
    case False
    with Cons.prems have step: "?st = update_exchange i
               (\<lambda>x. x\<lparr>bodySize := bodySize x + length c, chunks := chunks x @ [c]\<rparr>) st"
      by (intro onData_accept) simp_all
    with Cons.prems False have "i < exchangeCount ?st" "phase (exchanges ?st i) = Reading"
      "bodySize (exchanges ?st i) + length (concat cs) > MAX_BODY_SIZE"
      "bodySize (exchanges ?st i) \<le> MAX_BODY_SIZE"
      by (simp_all add: update_exchange_def)
    from Cons.IH [OF this] obtain n ks where "feed i cs ?st
           = update_exchange i
               (\<lambda>x. x\<lparr>bodySize := n, chunks := ks, written := written x @ [too_large],
                      phase := Destroyed\<rparr>) ?st" by blast
    with step have "feed i (c # cs) st = update_exchange i
               (\<lambda>x. x\<lparr>bodySize := n, chunks := ks, written := written x @ [too_large],
                      phase := Destroyed\<rparr>) st"
      by (simp add: feed_Cons update_exchange_twice)
    then show ?thesis by blast
  qed
qed

lemma onEnd_idle: "phase (exchanges st i) \<noteq> Reading \<Longrightarrow> onEnd i uuid st = st"
  by (simp add: onEnd_def)

lemma onEnd_accept:
  assumes "i < exchangeCount st" and "phase (exchanges st i) = Reading"
    and "written (exchanges st i) = []"
  shows "onEnd i uuid st
           = ws_send (tunnel_ws (exchanges st i))
               (TunnelRequestMsg (serializeRequest (req (exchanges st i))
                                    (concat (chunks (exchanges st i))) uuid))
               (update_exchange i (\<lambda>x. x\<lparr>phase := Ended\<rparr>) st
                  \<lparr>timeouts := AList.update (nextHandle st) (REQUEST_TIMEOUT, uuid) (timeouts st),
                   nextHandle := Suc (nextHandle st),
                   pendingRequests :=
                     AList.update uuid \<lparr>res = i, timeout = nextHandle st\<rparr> (pendingRequests st)\<rparr>)"
  using assms by (simp add: onEnd_def relay_defs Let_def serializeRequest_def)


lemma ingest_reject:
  assumes "phase (exchanges (handleHttpRequest rq st) (exchangeCount st)) = Reading"
    and "length (concat cs) > MAX_BODY_SIZE"
  shows "\<exists>n ks. ingest rq cs uuid st
           = update_exchange (exchangeCount st)
               (\<lambda>x. x\<lparr>bodySize := n, chunks := ks, written := written x @ [too_large],
                      phase := Destroyed\<rparr>) (handleHttpRequest rq st)"
proof -
  let ?i = "exchangeCount st"
  let ?st1 = "handleHttpRequest rq st"
  from handleHttpRequest_reading [OF assms(1)] obtain w
    where st1: "?st1 = update_exchange ?i (\<lambda>x. x\<lparr>tunnel_ws := w, phase := Reading\<rparr>)
                          (open_exchange rq st)" by blast
  then have "exchangeCount ?st1 = Suc ?i" "bodySize (exchanges ?st1 ?i) = 0"
    by (simp_all add: relay_defs)
  with assms have "\<exists>n ks. feed ?i cs ?st1
           = update_exchange ?i
               (\<lambda>x. x\<lparr>bodySize := n, chunks := ks, written := written x @ [too_large],
                      phase := Destroyed\<rparr>) ?st1"
    by (intro feed_reject) simp_all
  then obtain n ks where f: "feed ?i cs ?st1
           = update_exchange ?i
               (\<lambda>x. x\<lparr>bodySize := n, chunks := ks, written := written x @ [too_large],
                      phase := Destroyed\<rparr>) ?st1" by blast
  then have "phase (exchanges (feed ?i cs ?st1) ?i) \<noteq> Reading"
    by (simp add: update_exchange_def)
  then have "ingest rq cs uuid st = feed ?i cs ?st1"
    by (simp add: ingest_def onEnd_idle)
  with f show ?thesis by auto
qed

lemma ingest_accept:
  assumes "phase (exchanges (handleHttpRequest rq st) (exchangeCount st)) = Reading"
    and "length (concat cs) \<le> MAX_BODY_SIZE"
  shows "\<exists>w. readyState (sockets st w) = OPEN
          \<and> tunnel_ws (exchanges (handleHttpRequest rq st) (exchangeCount st)) = w
          \<and> ingest rq cs uuid st
           = ws_send w (TunnelRequestMsg (serializeRequest rq (concat cs) uuid))
               (update_exchange (exchangeCount st)
                  (\<lambda>x. x\<lparr>bodySize := length (concat cs), chunks := cs, phase := Ended\<rparr>)
                  (handleHttpRequest rq st)
                  \<lparr>timeouts := AList.update (nextHandle st) (REQUEST_TIMEOUT, uuid) (timeouts st),
                   nextHandle := Suc (nextHandle st),
                   pendingRequests :=
                     AList.update uuid \<lparr>res = exchangeCount st, timeout = nextHandle st\<rparr>
                       (pendingRequests st)\<rparr>)"
proof -
  let ?i = "exchangeCount st"
  let ?st1 = "handleHttpRequest rq st"
  from handleHttpRequest_reading [OF assms(1)] obtain w
    where st1: "?st1 = update_exchange ?i (\<lambda>x. x\<lparr>tunnel_ws := w, phase := Reading\<rparr>)
                          (open_exchange rq st)"
      and w: "readyState (sockets st w) = OPEN" by blast
  from st1 have fresh: "exchangeCount ?st1 = Suc ?i" "bodySize (exchanges ?st1 ?i) = 0"
    "chunks (exchanges ?st1 ?i) = []" "written (exchanges ?st1 ?i) = []"
    "req (exchanges ?st1 ?i) = rq" "tunnel_ws (exchanges ?st1 ?i) = w"
    "nextHandle ?st1 = nextHandle st" "timeouts ?st1 = timeouts st"
    "pendingRequests ?st1 = pendingRequests st"
    by (simp_all add: relay_defs)
  let ?st2 = "feed ?i cs ?st1"
  from assms fresh have f: "?st2 = update_exchange ?i
               (\<lambda>x. x\<lparr>bodySize := bodySize x + length (concat cs), chunks := chunks x @ cs\<rparr>) ?st1"
    by (intro feed_accept) simp_all
  with assms(1) fresh have st2: "?i < exchangeCount ?st2" "phase (exchanges ?st2 ?i) = Reading"
    "written (exchanges ?st2 ?i) = []" "tunnel_ws (exchanges ?st2 ?i) = w"
    "req (exchanges ?st2 ?i) = rq" "chunks (exchanges ?st2 ?i) = cs"
    "nextHandle ?st2 = nextHandle st" "timeouts ?st2 = timeouts st"
    "pendingRequests ?st2 = pendingRequests st"
    by (simp_all add: update_exchange_def)
  have "ingest rq cs uuid st = onEnd ?i uuid ?st2" by (simp add: ingest_def)
  also have "\<dots> = ws_send w (TunnelRequestMsg (serializeRequest rq (concat cs) uuid))
               (update_exchange ?i (\<lambda>x. x\<lparr>phase := Ended\<rparr>) ?st2
                  \<lparr>timeouts := AList.update (nextHandle st) (REQUEST_TIMEOUT, uuid) (timeouts st),
                   nextHandle := Suc (nextHandle st),
                   pendingRequests :=
                     AList.update uuid \<lparr>res = ?i, timeout = nextHandle st\<rparr> (pendingRequests st)\<rparr>)"
    using st2 by (simp add: onEnd_accept)
  also have "update_exchange ?i (\<lambda>x. x\<lparr>phase := Ended\<rparr>) ?st2
       = update_exchange ?i
           (\<lambda>x. x\<lparr>bodySize := length (concat cs), chunks := cs, phase := Ended\<rparr>) ?st1"
    using fresh by (subst f) (simp add: update_exchange_def)
  finally show ?thesis using w fresh by (intro exI [of _ w]) simp
qed

text \<open>
  C6. For a request that \<open>handleHttpRequest\<close> routes to a tunnel with an open socket, the
  relay answers 413 and destroys the request stream exactly when the body that arrives is
  larger than \<open>MAX_BODY_SIZE\<close> (10 MiB); it then sends no frame, creates no pending entry
  and arms no timer. A body of at most 10 MiB is accepted: nothing is written to the
  caller yet, the pending entry is created and the request frame goes out on the tunnel's
  socket.
\<close>

theorem body_cap:
  assumes "phase (exchanges (handleHttpRequest rq st) (exchangeCount st)) = Reading"
  shows "(length (concat cs) > MAX_BODY_SIZE \<longrightarrow>
            written (exchanges (ingest rq cs uuid st) (exchangeCount st)) = [too_large]
          \<and> phase (exchanges (ingest rq cs uuid st) (exchangeCount st)) = Destroyed
          \<and> sockets (ingest rq cs uuid st) = sockets (handleHttpRequest rq st)
          \<and> pendingRequests (ingest rq cs uuid st) = pendingRequests (handleHttpRequest rq st)
          \<and> timeouts (ingest rq cs uuid st) = timeouts (handleHttpRequest rq st))
       \<and> (length (concat cs) \<le> MAX_BODY_SIZE \<longrightarrow>
            written (exchanges (ingest rq cs uuid st) (exchangeCount st)) = []
          \<and> phase (exchanges (ingest rq cs uuid st) (exchangeCount st)) = Ended
          \<and> pendingRequests (ingest rq cs uuid st)
              = AList.update uuid \<lparr>res = exchangeCount st, timeout = nextHandle st\<rparr>
                  (pendingRequests (handleHttpRequest rq st))
          \<and> sent (sockets (ingest rq cs uuid st)
                     (tunnel_ws (exchanges (handleHttpRequest rq st) (exchangeCount st))))
              = sent (sockets (handleHttpRequest rq st)
                     (tunnel_ws (exchanges (handleHttpRequest rq st) (exchangeCount st))))
                @ [TunnelRequestMsg (serializeRequest rq (concat cs) uuid)])"
proof (intro conjI impI)
  let ?i = "exchangeCount st"
  let ?st1 = "handleHttpRequest rq st"
  from handleHttpRequest_reading [OF assms] obtain w
    where st1: "?st1 = update_exchange ?i (\<lambda>x. x\<lparr>tunnel_ws := w, phase := Reading\<rparr>)
                          (open_exchange rq st)"
      and w: "readyState (sockets st w) = OPEN" by blast
  then have fresh: "written (exchanges ?st1 ?i) = []" "sockets ?st1 = sockets st"
    "pendingRequests ?st1 = pendingRequests st"
    by (simp_all add: relay_defs)
  {
    assume "length (concat cs) > MAX_BODY_SIZE"
    from ingest_reject [OF assms this, of uuid] obtain n ks where r: "ingest rq cs uuid st
           = update_exchange ?i
               (\<lambda>x. x\<lparr>bodySize := n, chunks := ks, written := written x @ [too_large],
                      phase := Destroyed\<rparr>) ?st1" by blast
    from r fresh show "written (exchanges (ingest rq cs uuid st) ?i) = [too_large]"
      by (simp add: update_exchange_def)
    from r show "phase (exchanges (ingest rq cs uuid st) ?i) = Destroyed"
      by (simp add: update_exchange_def)
    from r show "sockets (ingest rq cs uuid st) = sockets ?st1"
      by (simp add: update_exchange_def)
    from r show "pendingRequests (ingest rq cs uuid st) = pendingRequests ?st1"
      by (simp add: update_exchange_def)
    from r show "timeouts (ingest rq cs uuid st) = timeouts ?st1"
      by (simp add: update_exchange_def)
  }
  {
    assume "length (concat cs) \<le> MAX_BODY_SIZE"
    from ingest_accept [OF assms this, of uuid] obtain w'
      where w': "readyState (sockets st w') = OPEN" "tunnel_ws (exchanges ?st1 ?i) = w'"
        and a: "ingest rq cs uuid st
           = ws_send w' (TunnelRequestMsg (serializeRequest rq (concat cs) uuid))
               (update_exchange ?i
                  (\<lambda>x. x\<lparr>bodySize := length (concat cs), chunks := cs, phase := Ended\<rparr>) ?st1
                  \<lparr>timeouts := AList.update (nextHandle st) (REQUEST_TIMEOUT, uuid) (timeouts st),
                   nextHandle := Suc (nextHandle st),
                   pendingRequests :=
                     AList.update uuid \<lparr>res = ?i, timeout = nextHandle st\<rparr> (pendingRequests st)\<rparr>)"
      by blast
    from a fresh show "written (exchanges (ingest rq cs uuid st) ?i) = []"
      by (simp add: relay_defs)
    from a show "phase (exchanges (ingest rq cs uuid st) ?i) = Ended"
      by (simp add: relay_defs)
    from a fresh show "pendingRequests (ingest rq cs uuid st)
              = AList.update uuid \<lparr>res = ?i, timeout = nextHandle st\<rparr> (pendingRequests ?st1)"
      by (simp add: relay_defs)
    from a w' fresh show "sent (sockets (ingest rq cs uuid st) (tunnel_ws (exchanges ?st1 ?i)))
              = sent (sockets ?st1 (tunnel_ws (exchanges ?st1 ?i)))
                @ [TunnelRequestMsg (serializeRequest rq (concat cs) uuid)]"
      by (simp add: relay_defs)
  }
qed


text \<open>Bodies of 10 MiB + 1 byte and of exactly 10 MiB, sent to the tunnel \<open>myapp\<close>.\<close>

theorem body_cap_witness:
  "phase (exchanges (handleHttpRequest (public_request ''myapp.tunnel.test.local'' ''/echo'')
                       (register ''myapp'' (newRelayServer test_config)))
            (exchangeCount (register ''myapp'' (newRelayServer test_config)))) = Reading
   \<and> written (exchanges (ingest (public_request ''myapp.tunnel.test.local'' ''/echo'')
                         [replicate (MAX_BODY_SIZE + 1) 0] ''id-1''
                         (register ''myapp'' (newRelayServer test_config))) 0) = [too_large]
   \<and> pendingRequests (ingest (public_request ''myapp.tunnel.test.local'' ''/echo'')
                         [replicate (MAX_BODY_SIZE + 1) 0] ''id-1''
                         (register ''myapp'' (newRelayServer test_config))) = []
   \<and> written (exchanges (ingest (public_request ''myapp.tunnel.test.local'' ''/echo'')
                         [replicate MAX_BODY_SIZE 0] ''id-1''
                         (register ''myapp'' (newRelayServer test_config))) 0) = []
   \<and> pendingRequests (ingest (public_request ''myapp.tunnel.test.local'' ''/echo'')
                         [replicate MAX_BODY_SIZE 0] ''id-1''
                         (register ''myapp'' (newRelayServer test_config)))
       = [(''id-1'', \<lparr>res = 0, timeout = 1\<rparr>)]"
proof -
  let ?rq = "public_request ''myapp.tunnel.test.local'' ''/echo''"
  let ?st = "register ''myapp'' (newRelayServer test_config)"
  have st: "exchangeCount ?st = 0" "nextHandle ?st = 1" "pendingRequests ?st = []"
    by (simp_all add: register_def ws_send_def update_socket_def newRelayServer_def)
  have routed: "handleHttpRequest ?rq ?st
                  = update_exchange 0 (\<lambda>x. x\<lparr>tunnel_ws := 0, phase := Reading\<rparr>)
                      (open_exchange ?rq ?st)"
    by (simp add: handleHttpRequest_def extractSubdomain_def split_colon_first_def endsWith_def
        slice_off_end_def or_default_def header_string_def public_request_def truthy_def
        register_def ws_send_def update_socket_def newRelayServer_def test_config_def Let_def
        open_exchange_def update_conv')
  then have reading: "phase (exchanges (handleHttpRequest ?rq ?st) (exchangeCount ?st)) = Reading"
    and pend: "pendingRequests (handleHttpRequest ?rq ?st) = []"
    using st by (simp_all add: update_exchange_def open_exchange_def)
  have big: "length (concat [replicate (MAX_BODY_SIZE + 1) (0::8 word)]) > MAX_BODY_SIZE"
    and fit: "length (concat [replicate MAX_BODY_SIZE (0::8 word)]) \<le> MAX_BODY_SIZE"
    by simp_all
  from body_cap [OF reading, of "[replicate (MAX_BODY_SIZE + 1) 0]" "''id-1''"] big st pend
  have r: "written (exchanges (ingest ?rq [replicate (MAX_BODY_SIZE + 1) 0] ''id-1'' ?st) 0)
             = [too_large]"
    "pendingRequests (ingest ?rq [replicate (MAX_BODY_SIZE + 1) 0] ''id-1'' ?st) = []"
    by simp_all
  from body_cap [OF reading, of "[replicate MAX_BODY_SIZE 0]" "''id-1''"] fit st pend
  have a: "written (exchanges (ingest ?rq [replicate MAX_BODY_SIZE 0] ''id-1'' ?st) 0) = []"
    "pendingRequests (ingest ?rq [replicate MAX_BODY_SIZE 0] ''id-1'' ?st)
       = [(''id-1'', \<lparr>res = 0, timeout = 1\<rparr>)]"
    by simp_all
  from reading r a show ?thesis by blast
qed

section \<open>One response per request\<close>

lemma set_alist_update: "set (AList.update k v al) \<subseteq> insert (k, v) (set al)"
  by (induction al) auto

lemma in_alist_update: "x \<in> set (AList.update k v al) \<Longrightarrow> x = (k, v) \<or> x \<in> set al"
  using set_alist_update [of k v al] by auto

lemma set_alist_delete: "set (AList.delete k al) \<subseteq> set al"
  by (auto simp: AList.delete_eq)

subsection \<open>handleTunnelResponse and onTimeout\<close>

lemma handleTunnelResponse_miss:
  "map_of (pendingRequests st) (rs_id r) = None \<Longrightarrow> receive r st = st"
  by (simp add: receive_def handleTunnelResponse_def)

lemma handleTunnelResponse_hit:
  assumes "map_of (pendingRequests st) (rs_id r) = Some p"
  shows "receive r st =
     (let st2 = st\<lparr>timeouts := AList.delete (timeout p) (timeouts st),
                    pendingRequests := AList.delete (rs_id r) (pendingRequests st)\<rparr>
      in if written (exchanges st (res p)) \<noteq> [] \<or> \<not> accepted (req (exchanges st (res p))) r
         then st2
         else update_exchange (res p) (\<lambda>x. x\<lparr>written := written x @ [delivered r]\<rparr>) st2)"
  using assms
  by (simp add: receive_def handleTunnelResponse_def relay_defs delivered_def accepted_def Let_def)

lemma handleTunnelResponse_thrown:
  assumes "map_of (pendingRequests st) (rs_id r) = Some p"
    and "written (exchanges st (res p)) = []" and "\<not> accepted (req (exchanges st (res p))) r"
  shows "handleTunnelResponse r st =
           Thrown (st\<lparr>timeouts := AList.delete (timeout p) (timeouts st),
                       pendingRequests := AList.delete (rs_id r) (pendingRequests st)\<rparr>)"
  using assms
  by (simp add: handleTunnelResponse_def relay_defs accepted_def Let_def)

lemma handleTunnelResponse_forgets:
  "map_of (pendingRequests (receive r st)) (rs_id r) = None"
  by (cases "map_of (pendingRequests st) (rs_id r)")
     (simp_all add: handleTunnelResponse_miss handleTunnelResponse_hit Let_def
       update_exchange_def delete_conv')

lemma handleTunnelResponse_again:
  "rs_id r' = rs_id r \<Longrightarrow> receive r' (receive r st) = receive r st"
  using handleTunnelResponse_forgets [of r st]
  by (simp add: handleTunnelResponse_miss)

lemma handleTunnelResponse_first:
  assumes "map_of (pendingRequests st) (rs_id r) = Some p"
    and "written (exchanges st (res p)) = []"
  shows "map_of (timeouts (receive r st)) (timeout p) = None"
    and "accepted (req (exchanges st (res p))) r \<Longrightarrow>
           written (exchanges (receive r st) (res p)) = [delivered r]"
    and "\<not> accepted (req (exchanges st (res p))) r \<Longrightarrow>
           written (exchanges (receive r st) (res p)) = []"
  using assms
  by (simp_all add: handleTunnelResponse_hit Let_def update_exchange_def delete_conv')

lemma onTimeout_fires:
  assumes "map_of (timeouts st) h = Some (d, k)"
  shows "onTimeout h st =
     (let st1 = st\<lparr>timeouts := AList.delete h (timeouts st)\<rparr>;
          st2 = (case map_of (pendingRequests st) k of
                   None \<Rightarrow> st1
                 | Some p \<Rightarrow>
                     if written (exchanges st (res p)) = []
                     then update_exchange (res p) (\<lambda>x. x\<lparr>written := written x @ [timed_out]\<rparr>) st1
                     else st1)
      in st2\<lparr>pendingRequests := AList.delete k (pendingRequests st)\<rparr>)"
  using assms
  by (simp add: onTimeout_def relay_defs timed_out_def Let_def split: option.splits)

lemma onTimeout_first:
  assumes "map_of (timeouts st) h = Some (d, k)"
    and "map_of (pendingRequests st) k = Some p"
    and "written (exchanges st (res p)) = []"
  shows "written (exchanges (onTimeout h st) (res p)) = [timed_out]"
    and "map_of (pendingRequests (onTimeout h st)) k = None"
  using assms
  by (simp_all add: onTimeout_fires Let_def update_exchange_def delete_conv')


subsection \<open>The invariant\<close>

lemma inv_new: "inv (newRelayServer cfg)"
  by (simp add: inv_def newRelayServer_def blank_exchange_def)

lemma inv_shrink:
  assumes "inv st" and "exchanges st' = exchanges st" and "exchangeCount st' = exchangeCount st"
    and "set (pendingRequests st') \<subseteq> set (pendingRequests st)"
    and "set (timeouts st') \<subseteq> set (timeouts st)"
  shows "inv st'"
  using assms unfolding inv_def by (simp add: subset_iff) blast

lemma inv_same: "inv st \<Longrightarrow> same_requests st st' \<Longrightarrow> inv st'"
  by (simp add: same_requests_def inv_def)

lemma same_requests_refl [simp]: "same_requests st st"
  by (simp add: same_requests_def)

lemma same_requests_trans: "same_requests a b \<Longrightarrow> same_requests b c \<Longrightarrow> same_requests a c"
  by (simp add: same_requests_def)

lemma same_ws_send [simp]: "same_requests st (ws_send w m st)"
  by (simp add: same_requests_def relay_defs)

lemma same_ws_close [simp]: "same_requests st (ws_close w st)"
  by (simp add: same_requests_def relay_defs)

lemma same_ws_terminate [simp]: "same_requests st (ws_terminate w st)"
  by (simp add: same_requests_def relay_defs)

lemma same_clearInterval [simp]: "same_requests st (clearInterval h st)"
  by (simp add: same_requests_def relay_defs)

lemma same_update_socket [simp]: "same_requests st (update_socket w f st)"
  by (simp add: same_requests_def relay_defs)

lemma same_removeTunnel [simp]: "same_requests st (removeTunnel s st)"
  by (simp add: same_requests_def removeTunnel_def relay_defs Let_def split: option.splits)

lemma same_register [simp]: "same_requests st (register l st)"
  by (simp add: same_requests_def register_def relay_defs Let_def)

lemma same_onClose [simp]: "same_requests st (onClose w st)"
  unfolding onClose_def
  by (auto intro: same_requests_trans [OF same_update_socket same_removeTunnel])

lemma same_onSocketError [simp]: "same_requests st (onSocketError w st)"
  by (simp add: onSocketError_def)

lemma same_onHeartbeat [simp]: "same_requests st (onHeartbeat h st)"
  by (simp add: same_requests_def onHeartbeat_def relay_defs Let_def split: option.splits prod.splits)

lemma same_onUpgrade:
  "onUpgrade rq parsed completes rng st = Some (out, st') \<Longrightarrow> same_requests st st'"
  by (auto simp: onUpgrade_def handleWebSocketConnection_def split: if_splits option.splits)

lemma inv_update_exchange:
  assumes "inv st"
    and "length (written (f (exchanges st i))) \<le> 1"
    and "phase (f (exchanges st i)) = Reading \<longrightarrow>
           written (f (exchanges st i)) = [] \<and> phase (exchanges st i) = Reading"
  shows "inv (update_exchange i f st)"
  using assms unfolding inv_def update_exchange_def
  by (auto split: prod.splits)

lemma inv_write:
  assumes "inv st" and "written (exchanges st i) = []" and "phase (exchanges st i) \<noteq> Reading"
  shows "inv (respond i code hs data st)"
  unfolding respond_def using assms by (intro inv_update_exchange) simp_all

lemma inv_open_exchange: "inv st \<Longrightarrow> inv (open_exchange rq st)"
  unfolding inv_def open_exchange_def by (fastforce simp: less_Suc_eq)

lemma inv_start_reading:
  assumes "inv st" and "written (exchanges st i) = []"
    and "\<forall>k p. (k, p) \<in> set (pendingRequests st) \<longrightarrow> res p \<noteq> i"
  shows "inv (update_exchange i (\<lambda>x. x\<lparr>tunnel_ws := w, phase := Reading\<rparr>) st)"
  using assms unfolding inv_def update_exchange_def by (auto split: prod.splits)

lemma open_exchange_fresh:
  "written (exchanges (open_exchange rq st) (exchangeCount st)) = []"
  "phase (exchanges (open_exchange rq st) (exchangeCount st)) = Answered"
  by (simp_all add: open_exchange_def)

lemma inv_handleHttpRequest:
  assumes "inv st"
  shows "inv (handleHttpRequest rq st)"
proof -
  let ?i = "exchangeCount st"
  let ?st = "open_exchange rq st"
  have open_inv: "inv ?st" using assms by (rule inv_open_exchange)
  have fresh: "written (exchanges ?st ?i) = []" "phase (exchanges ?st ?i) \<noteq> Reading"
    by (simp_all add: open_exchange_fresh)
  have refs: "\<forall>k p. (k, p) \<in> set (pendingRequests ?st) \<longrightarrow> res p \<noteq> ?i"
    using assms unfolding inv_def open_exchange_def by fastforce
  have op: "inv (operational ?i rq ?st)"
    unfolding operational_def using open_inv fresh by (simp add: inv_write)
  show ?thesis
    unfolding handleHttpRequest_def Let_def
    using op open_inv fresh refs
    by (auto split: option.splits
        intro!: inv_write inv_start_reading inv_same [OF _ same_removeTunnel])
qed

lemma inv_add_pending:
  assumes "inv st" and "i < exchangeCount st" and "phase (exchanges st i) \<noteq> Reading"
  shows "inv (st\<lparr>timeouts := AList.update h (REQUEST_TIMEOUT, k) (timeouts st),
               nextHandle := n,
               pendingRequests := AList.update k \<lparr>res = i, timeout = h\<rparr> (pendingRequests st)\<rparr>)"
proof -
  have "res p < exchangeCount st \<and> phase (exchanges st (res p)) \<noteq> Reading"
    if "(k', p) \<in> set (AList.update k \<lparr>res = i, timeout = h\<rparr> (pendingRequests st))" for k' p
    using in_alist_update [OF that] assms by (auto simp: inv_def)
  moreover have "d = REQUEST_TIMEOUT"
    if "(h', d, k') \<in> set (AList.update h (REQUEST_TIMEOUT, k) (timeouts st))" for h' d k'
    using in_alist_update [OF that] assms unfolding inv_def by blast
  ultimately show ?thesis
    using assms(1) unfolding inv_def by simp
qed

lemma inv_onData:
  assumes "inv st"
  shows "inv (onData i c st)"
proof (cases "i < exchangeCount st \<and> phase (exchanges st i) = Reading")
  case False
  then show ?thesis using assms by (auto simp: onData_def)
next
  case True
  with assms have w: "written (exchanges st i) = []" by (simp add: inv_def)
  show ?thesis
  proof (cases "bodySize (exchanges st i) + length c \<le> MAX_BODY_SIZE")
    case fits: True
    with True have "onData i c st = update_exchange i
               (\<lambda>x. x\<lparr>bodySize := bodySize x + length c, chunks := chunks x @ [c]\<rparr>) st"
      by (simp add: onData_accept)
    moreover have "inv (update_exchange i
               (\<lambda>x. x\<lparr>bodySize := bodySize x + length c, chunks := chunks x @ [c]\<rparr>) st)"
      using assms by (rule inv_update_exchange) (simp_all add: w)
    ultimately show ?thesis by simp
  next
    case False
    with True have "onData i c st = update_exchange i
               (\<lambda>x. x\<lparr>bodySize := bodySize x + length c, written := written x @ [too_large],
                      phase := Destroyed\<rparr>) st"
      by (simp add: onData_reject)
    moreover have "inv (update_exchange i
               (\<lambda>x. x\<lparr>bodySize := bodySize x + length c, written := written x @ [too_large],
                      phase := Destroyed\<rparr>) st)"
      using assms by (rule inv_update_exchange) (simp_all add: w)
    ultimately show ?thesis by simp
  qed
qed

lemma inv_onEnd:
  assumes "inv st"
  shows "inv (onEnd i uuid st)"
proof (cases "i < exchangeCount st \<and> phase (exchanges st i) = Reading")
  case False
  then show ?thesis using assms by (auto simp: onEnd_def)
next
  case True
  with assms have w: "written (exchanges st i) = []" by (simp add: inv_def)
  let ?st1 = "update_exchange i (\<lambda>x. x\<lparr>phase := Ended\<rparr>) st"
  let ?st2 = "?st1\<lparr>timeouts := AList.update (nextHandle st) (REQUEST_TIMEOUT, uuid) (timeouts st),
                   nextHandle := Suc (nextHandle st),
                   pendingRequests :=
                     AList.update uuid \<lparr>res = i, timeout = nextHandle st\<rparr> (pendingRequests st)\<rparr>"
  have "inv ?st1" using assms by (rule inv_update_exchange) (simp_all add: w)
  then have "inv (?st1\<lparr>timeouts := AList.update (nextHandle st) (REQUEST_TIMEOUT, uuid) (timeouts ?st1),
                   nextHandle := Suc (nextHandle st),
                   pendingRequests :=
                     AList.update uuid \<lparr>res = i, timeout = nextHandle st\<rparr> (pendingRequests ?st1)\<rparr>)"
    using True by (intro inv_add_pending) (simp_all add: update_exchange_def)
  then have "inv ?st2" by (simp add: update_exchange_def)
  then have "inv (ws_send (tunnel_ws (exchanges st i))
               (TunnelRequestMsg (serializeRequest (req (exchanges st i))
                                    (concat (chunks (exchanges st i))) uuid)) ?st2)"
    by (rule inv_same) simp
  with True w show ?thesis by (simp add: onEnd_accept)
qed

lemma inv_onError:
  assumes "inv st"
  shows "inv (onError i st)"
proof -
  let ?st1 = "update_exchange i (\<lambda>x. x\<lparr>phase := Errored\<rparr>) st"
  have "length (written (exchanges st i)) \<le> 1" using assms by (simp add: inv_def)
  then have 1: "inv ?st1" using assms by (intro inv_update_exchange) simp_all
  have "\<not> writableEnded ?st1 i \<Longrightarrow> inv (respond i 500 [] (Text ''Request error'') ?st1)"
    using 1 by (intro inv_write) (simp_all add: relay_defs)
  with 1 assms show ?thesis by (simp add: onError_def Let_def)
qed

lemma inv_handleTunnelResponse:
  assumes "inv st"
  shows "inv (receive r st)"
proof (cases "map_of (pendingRequests st) (rs_id r)")
  case None
  with assms show ?thesis by (simp add: handleTunnelResponse_miss)
next
  case (Some p)
  then have "(rs_id r, p) \<in> set (pendingRequests st)" by (rule map_of_SomeD)
  with assms have ph: "phase (exchanges st (res p)) \<noteq> Reading" by (auto simp: inv_def)
  let ?st2 = "st\<lparr>timeouts := AList.delete (timeout p) (timeouts st),
                    pendingRequests := AList.delete (rs_id r) (pendingRequests st)\<rparr>"
  have 2: "inv ?st2"
    using assms by (rule inv_shrink) (simp_all add: set_alist_delete)
  have "written (exchanges st (res p)) = [] \<Longrightarrow>
        inv (update_exchange (res p) (\<lambda>x. x\<lparr>written := written x @ [delivered r]\<rparr>) ?st2)"
    using 2 ph by (intro inv_update_exchange) simp_all
  with 2 Some show ?thesis by (simp add: handleTunnelResponse_hit Let_def)
qed

lemma inv_onTimeout:
  assumes "inv st"
  shows "inv (onTimeout h st)"
proof (cases "map_of (timeouts st) h")
  case None
  with assms show ?thesis by (simp add: onTimeout_def)
next
  case (Some dk)
  obtain d k where dk: "dk = (d, k)" by (cases dk)
  let ?st1 = "st\<lparr>timeouts := AList.delete h (timeouts st)\<rparr>"
  have 1: "inv ?st1" using assms by (rule inv_shrink) (simp_all add: set_alist_delete)
  let ?st2 = "case map_of (pendingRequests st) k of
                   None \<Rightarrow> ?st1
                 | Some p \<Rightarrow>
                     if written (exchanges st (res p)) = []
                     then update_exchange (res p) (\<lambda>x. x\<lparr>written := written x @ [timed_out]\<rparr>) ?st1
                     else ?st1"
  have 2: "inv ?st2"
  proof (cases "map_of (pendingRequests st) k")
    case None
    with 1 show ?thesis by simp
  next
    case (Some p)
    then have "(k, p) \<in> set (pendingRequests st)" by (rule map_of_SomeD)
    with assms have ph: "phase (exchanges st (res p)) \<noteq> Reading" by (auto simp: inv_def)
    have "written (exchanges st (res p)) = [] \<Longrightarrow>
        inv (update_exchange (res p) (\<lambda>x. x\<lparr>written := written x @ [timed_out]\<rparr>) ?st1)"
      using 1 ph by (intro inv_update_exchange) simp_all
    with 1 Some show ?thesis by simp
  qed
  have "pendingRequests ?st2 = pendingRequests st" "exchangeCount ?st2 = exchangeCount st"
    by (simp_all add: update_exchange_def split: option.splits)
  with 2 have "inv (?st2\<lparr>pendingRequests := AList.delete k (pendingRequests st)\<rparr>)"
    using set_alist_delete [of k "pendingRequests st"]
    unfolding inv_def by (auto split: prod.splits)
  with Some dk show ?thesis by (simp add: onTimeout_fires Let_def)
qed

lemma inv_onMessage:
  assumes "inv st"
  shows "inv (onMessage w msg st)"
proof (cases msg)
  case None
  with assms show ?thesis by (simp add: onMessage_def)
next
  case (Some m)
  have "same_requests st (st\<lparr>tunnels := ts\<rparr>)" for ts
    by (simp add: same_requests_def)
  with assms have "inv (st\<lparr>tunnels := ts\<rparr>)" for ts
    by (rule inv_same)
  with Some assms show ?thesis
    by (cases m)
       (auto simp: onMessage_def receive_def [symmetric] inv_handleTunnelResponse Let_def
          split: option.splits)
qed


lemma same_close_all:
  "same_requests st
     (fold (\<lambda>(k, conn) s. ws_close (ws conn) (clearInterval (heartbeat conn) s)) ts st)"
proof (induction ts arbitrary: st)
  case Nil
  show ?case by simp
next
  case (Cons t ts)
  obtain k conn where t: "t = (k, conn)" by (cases t)
  have "same_requests st (ws_close (ws conn) (clearInterval (heartbeat conn) st))"
    by (rule same_requests_trans [OF same_clearInterval same_ws_close])
  from same_requests_trans [OF this Cons.IH] t show ?case by simp
qed

lemma inv_drain:
  assumes "inv st"
    and "\<forall>k p. (k, p) \<in> set ps \<longrightarrow> phase (exchanges st (res p)) \<noteq> Reading"
  shows "inv (fold (\<lambda>(k, pending) s.
                        let s1 = clearTimeout (timeout pending) s
                        in if \<not> writableEnded s1 (res pending)
                           then respond (res pending) 503 [] (Text ''Server shutting down'') s1
                           else s1) ps st)"
  using assms
proof (induction ps arbitrary: st)
  case Nil
  then show ?case by simp
next
  case (Cons x ps)
  obtain k p where x: "x = (k, p)" by (cases x)
  let ?s1 = "clearTimeout (timeout p) st"
  let ?s2 = "if \<not> writableEnded ?s1 (res p)
             then respond (res p) 503 [] (Text ''Server shutting down'') ?s1 else ?s1"
  have 1: "inv ?s1"
    using Cons.prems(1) by (rule inv_shrink) (simp_all add: clearTimeout_def set_alist_delete)
  from Cons.prems(2) x have ph: "phase (exchanges ?s1 (res p)) \<noteq> Reading"
    by (simp add: clearTimeout_def)
  have 2: "inv ?s2"
    using 1 ph by (auto intro: inv_write simp: writableEnded_def)
  have "phase (exchanges ?s2 i) = phase (exchanges st i)" for i
    by (simp add: relay_defs)
  with Cons.prems(2) have "\<forall>k p. (k, p) \<in> set ps \<longrightarrow> phase (exchanges ?s2 (res p)) \<noteq> Reading"
    by simp
  from Cons.IH [OF 2 this] x show ?case by (simp add: Let_def)
qed

lemma inv_stop:
  assumes "inv st"
  shows "inv (stop st)"
proof -
  let ?st1 = "fold (\<lambda>(k, conn) s. ws_close (ws conn) (clearInterval (heartbeat conn) s))
                (tunnels st) st"
  let ?st2 = "?st1\<lparr>tunnels := []\<rparr>"
  have same: "same_requests st ?st2"
    using same_close_all [of st "tunnels st"] by (simp add: same_requests_def)
  with assms have 2: "inv ?st2" by (rule inv_same)
  from same have "pendingRequests ?st2 = pendingRequests st" "exchanges ?st2 = exchanges st"
    by (simp_all add: same_requests_def)
  with assms have "\<forall>k p. (k, p) \<in> set (pendingRequests ?st2) \<longrightarrow>
                     phase (exchanges ?st2 (res p)) \<noteq> Reading"
    unfolding inv_def by (simp del: fold_simps)
  from inv_drain [OF 2 this]
  have "inv (fold (\<lambda>(k, pending) s.
                        let s1 = clearTimeout (timeout pending) s
                        in if \<not> writableEnded s1 (res pending)
                           then respond (res pending) 503 [] (Text ''Server shutting down'') s1
                           else s1) (pendingRequests ?st2) ?st2
              \<lparr>pendingRequests := []\<rparr>)"
    by (rule inv_shrink) simp_all
  then show ?thesis by (simp add: stop_def Let_def)
qed

lemma inv_step:
  assumes "inv st" and "step e st = Some st'"
  shows "inv st'"
proof (cases e)
  case (Upgrade rq parsed completes rng)
  with assms(2) obtain out where "onUpgrade rq parsed completes rng st = Some (out, st')"
    by (auto split: option.splits if_splits)
  then have "same_requests st st'" by (rule same_onUpgrade)
  with assms(1) show ?thesis by (rule inv_same)
qed (use assms in \<open>auto simp: inv_handleHttpRequest inv_onData inv_onEnd inv_onError inv_onTimeout
      inv_onMessage inv_stop intro: inv_same\<close>)

lemma inv_run: "inv st \<Longrightarrow> run evs st = Some st' \<Longrightarrow> inv st'"
proof (induction evs arbitrary: st)
  case Nil
  then show ?case by simp
next
  case (Cons e evs)
  then obtain st1 where "step e st = Some st1" "run evs st1 = Some st'"
    by (auto split: option.splits)
  with Cons show ?case by (blast intro: inv_step)
qed

text \<open>
  What the relay does for one correlation id. In every state that a relay reaches from
  its start, whatever the events, each response object has been written at most once, and
  every armed timeout runs for 30 seconds. The first response frame for a pending id
  cancels the timeout and removes the entry; when \<open>writeHead\<close> accepts it, it is written to
  the caller that has not been answered yet, and when \<open>writeHead\<close> refuses it, nothing is
  written. A frame whose id is not pending leaves the relay as it is, and so does a
  second frame with the id of the first. When the timeout fires first, the caller that has
  not been answered gets 504 with a JSON body, the entry is removed, and a later frame with
  that id leaves the relay as it is.
\<close>

lemma first_response_wins:
  "(run evs (newRelayServer cfg) = Some st \<longrightarrow>
      (\<forall>i. length (written (exchanges st i)) \<le> 1)
      \<and> (\<forall>h d k. (h, d, k) \<in> set (timeouts st) \<longrightarrow> d = 30000))
   \<and> (map_of (pendingRequests st) (rs_id r) = Some p \<and> written (exchanges st (res p)) = [] \<longrightarrow>
        map_of (timeouts (receive r st)) (timeout p) = None
      \<and> map_of (pendingRequests (receive r st)) (rs_id r) = None
      \<and> (accepted (req (exchanges st (res p))) r \<longrightarrow>
            written (exchanges (receive r st) (res p)) = [delivered r])
      \<and> (\<not> accepted (req (exchanges st (res p))) r \<longrightarrow>
            written (exchanges (receive r st) (res p)) = []))
   \<and> (map_of (pendingRequests st) (rs_id r) = None \<longrightarrow> receive r st = st)
   \<and> (rs_id r' = rs_id r \<longrightarrow> receive r' (receive r st) = receive r st)
   \<and> (map_of (timeouts st) h = Some (d, rs_id r)
        \<and> map_of (pendingRequests st) (rs_id r) = Some p
        \<and> written (exchanges st (res p)) = [] \<longrightarrow>
        written (exchanges (onTimeout h st) (res p)) = [timed_out]
      \<and> map_of (pendingRequests (onTimeout h st)) (rs_id r) = None
      \<and> receive r (onTimeout h st) = onTimeout h st)"
proof (intro conjI impI)
  assume "run evs (newRelayServer cfg) = Some st"
  with inv_new have "inv st" by (rule inv_run)
  then show "\<forall>i. length (written (exchanges st i)) \<le> 1"
    and "\<forall>h d k. (h, d, k) \<in> set (timeouts st) \<longrightarrow> d = 30000"
    by (simp_all add: inv_def REQUEST_TIMEOUT_def)
next
  assume a: "map_of (pendingRequests st) (rs_id r) = Some p \<and> written (exchanges st (res p)) = []"
  then show "map_of (timeouts (receive r st)) (timeout p) = None"
    by (simp add: handleTunnelResponse_first)
  show "map_of (pendingRequests (receive r st)) (rs_id r) = None"
    by (rule handleTunnelResponse_forgets)
  { assume "accepted (req (exchanges st (res p))) r"
    with a show "written (exchanges (receive r st) (res p)) = [delivered r]"
      by (simp add: handleTunnelResponse_first) }
  { assume "\<not> accepted (req (exchanges st (res p))) r"
    with a show "written (exchanges (receive r st) (res p)) = []"
      by (simp add: handleTunnelResponse_first) }
next
  assume "map_of (pendingRequests st) (rs_id r) = None"
  then show "receive r st = st" by (rule handleTunnelResponse_miss)
next
  assume "rs_id r' = rs_id r"
  then show "receive r' (receive r st) = receive r st"
    by (rule handleTunnelResponse_again)
next
  assume a: "map_of (timeouts st) h = Some (d, rs_id r)
        \<and> map_of (pendingRequests st) (rs_id r) = Some p
        \<and> written (exchanges st (res p)) = []"
  then show "written (exchanges (onTimeout h st) (res p)) = [timed_out]"
    and gone: "map_of (pendingRequests (onTimeout h st)) (rs_id r) = None"
    by (simp_all add: onTimeout_first)
  from gone show "receive r (onTimeout h st) = onTimeout h st"
    by (rule handleTunnelResponse_miss)
qed


subsection \<open>The scenario\<close>

lemma myapp_attached:
  "onUpgrade (handshake ''sk_test_key_123'' (Some ''myapp'')) (Some ''/tunnel'') True zero_rng
     (newRelayServer test_config)
     = Some (Upgraded, register ''myapp'' (newRelayServer test_config))"
proof -
  have "resolveSubdomain (handshake ''sk_test_key_123'' (Some ''myapp'')) zero_rng
          (newRelayServer test_config) = Some ''myapp''"
    by (simp add: resolveSubdomain_def handshake_def header_string_def truthy_def valid_myapp
        has_def newRelayServer_def)
  then show ?thesis
    by (simp add: onUpgrade_def handleWebSocketConnection_def handshake_def header_string_def
        validateApiKey_def truthy_def newRelayServer_def test_config_def url_pathname_def
        url_base_def)
qed

lemma myapp_registered:
  "exchangeCount (register ''myapp'' (newRelayServer test_config)) = 0"
  "socketCount (register ''myapp'' (newRelayServer test_config)) = 1"
  "nextHandle (register ''myapp'' (newRelayServer test_config)) = 1"
  "pendingRequests (register ''myapp'' (newRelayServer test_config)) = []"
  "timeouts (register ''myapp'' (newRelayServer test_config)) = []"
  by (simp_all add: register_def ws_send_def update_socket_def newRelayServer_def)

lemma hello_routed:
  "handleHttpRequest hello_request (register ''myapp'' (newRelayServer test_config))
     = update_exchange 0 (\<lambda>x. x\<lparr>tunnel_ws := 0, phase := Reading\<rparr>)
         (open_exchange hello_request (register ''myapp'' (newRelayServer test_config)))"
  by (simp add: handleHttpRequest_def extractSubdomain_def split_colon_first_def endsWith_def
      slice_off_end_def or_default_def header_string_def public_request_def truthy_def
      register_def ws_send_def update_socket_def newRelayServer_def test_config_def Let_def
      open_exchange_def update_conv' hello_request_def)

lemma awaiting_state:
  "pendingRequests awaiting = [(''id-1'', \<lparr>res = 0, timeout = 1\<rparr>)]"
  "timeouts awaiting = [(1, REQUEST_TIMEOUT, ''id-1'')]"
  "written (exchanges awaiting 0) = []"
  "socketCount awaiting = 1"
proof -
  let ?st = "register ''myapp'' (newRelayServer test_config)"
  have "awaiting = onEnd 0 ''id-1'' (handleHttpRequest hello_request ?st)"
    by (simp add: awaiting_def ingest_def feed_def myapp_registered)
  also have "\<dots> = ws_send 0 (TunnelRequestMsg (serializeRequest hello_request [] ''id-1''))
               (update_exchange 0 (\<lambda>x. x\<lparr>phase := Ended\<rparr>)
                  (handleHttpRequest hello_request ?st)
                  \<lparr>timeouts := AList.update 1 (REQUEST_TIMEOUT, ''id-1'') [],
                   nextHandle := 2,
                   pendingRequests := AList.update ''id-1'' \<lparr>res = 0, timeout = 1\<rparr> []\<rparr>)"
    by (subst onEnd_accept) (simp_all add: hello_routed myapp_registered relay_defs)
  finally have eq: "awaiting = ws_send 0 (TunnelRequestMsg (serializeRequest hello_request [] ''id-1''))
               (update_exchange 0 (\<lambda>x. x\<lparr>phase := Ended\<rparr>)
                  (handleHttpRequest hello_request ?st)
                  \<lparr>timeouts := AList.update 1 (REQUEST_TIMEOUT, ''id-1'') [],
                   nextHandle := 2,
                   pendingRequests := AList.update ''id-1'' \<lparr>res = 0, timeout = 1\<rparr> []\<rparr>)" .
  show "pendingRequests awaiting = [(''id-1'', \<lparr>res = 0, timeout = 1\<rparr>)]"
    by (subst eq) (simp add: relay_defs)
  show "timeouts awaiting = [(1, REQUEST_TIMEOUT, ''id-1'')]"
    by (subst eq) (simp add: relay_defs)
  show "written (exchanges awaiting 0) = []"
    by (subst eq) (simp add: relay_defs hello_routed myapp_registered)
  show "socketCount awaiting = 1"
    by (subst eq) (simp add: relay_defs hello_routed myapp_registered)
qed

lemma hello_run_prefix:
  "run [Upgrade (handshake ''sk_test_key_123'' (Some ''myapp'')) (Some ''/tunnel'') True zero_rng,
        HttpRequest hello_request, End 0 ''id-1''] (newRelayServer test_config) = Some awaiting"
  by (simp add: myapp_attached awaiting_def ingest_def feed_def myapp_registered)

lemma run_append: "run (es @ fs) st = (case run es st of None \<Rightarrow> None | Some st' \<Rightarrow> run fs st')"
  by (induction es arbitrary: st) (simp_all split: option.splits)

text \<open>
  The scenario: the second response frame and the timer that was cancelled change nothing;
  had the timer fired first, the caller would have got 504 and the response frame would
  have been dropped.
\<close>

lemma hello_scenario:
  "run hello_events (newRelayServer test_config) = Some (receive hello_response awaiting)
   \<and> length (written (exchanges (receive hello_response awaiting) 0)) \<le> 1
   \<and> map_of (pendingRequests awaiting) (rs_id hello_response) = Some \<lparr>res = 0, timeout = 1\<rparr>
   \<and> written (exchanges awaiting 0) = []
   \<and> accepted (req (exchanges awaiting 0)) hello_response
   \<and> written (exchanges (receive hello_response awaiting) 0)
       = [\<lparr>statusCode = 200, outHeaders = [(''content-type'', ''text/plain'')],
           content = Binary [72, 105]\<rparr>]
   \<and> map_of (timeouts awaiting) 1 = Some (30000, rs_id hello_response)
   \<and> written (exchanges (onTimeout 1 awaiting) 0) = [timed_out]
   \<and> receive hello_response (onTimeout 1 awaiting) = onTimeout 1 awaiting"
proof -
  let ?p = "\<lparr>res = 0, timeout = 1\<rparr>"
  let ?done = "receive hello_response awaiting"
  have pend: "map_of (pendingRequests awaiting) (rs_id hello_response) = Some ?p"
    and blank: "written (exchanges awaiting (res ?p)) = []"
    and timer: "map_of (timeouts awaiting) 1 = Some (30000, rs_id hello_response)"
    by (simp_all add: awaiting_state hello_response_def REQUEST_TIMEOUT_def)
  have ok: "accepted (req (exchanges awaiting (res ?p))) hello_response"
    by (simp add: accepted_def hello_response_def writeHead_throws_def to_int32_def
        checkIsHttpToken_def token_pattern_def token_class_def in_class_def
        checkInvalidHeaderChar_def header_char_class_def names_header_def to_lower_def)
  note first = first_response_wins
      [of hello_events test_config ?done hello_response ?p hello_response 1 30000]
  note here = first_response_wins
      [of hello_events test_config awaiting hello_response ?p hello_response 1 30000]
  from here pend blank ok have cleared: "map_of (timeouts ?done) 1 = None"
    and answer: "written (exchanges ?done 0) = [delivered hello_response]"
    and again: "receive hello_response ?done = ?done"
    by simp_all
  from here pend blank timer have late: "written (exchanges (onTimeout 1 awaiting) 0) = [timed_out]"
    "receive hello_response (onTimeout 1 awaiting) = onTimeout 1 awaiting"
    by simp_all
  have sock: "0 < socketCount awaiting" "0 < socketCount ?done"
    by (simp_all add: awaiting_state handleTunnelResponse_hit [OF pend] Let_def update_exchange_def blank)
  have "run hello_events (newRelayServer test_config)
          = run [Message 0 (Some (TunnelResponseMsg hello_response)),
                 Message 0 (Some (TunnelResponseMsg hello_response)), TimeoutFired 1] awaiting"
    using run_append [of "[Upgrade (handshake ''sk_test_key_123'' (Some ''myapp'')) (Some ''/tunnel'') True zero_rng,
        HttpRequest hello_request, End 0 ''id-1'']" _ "newRelayServer test_config"]
    by (simp add: hello_events_def hello_run_prefix del: run.simps)
  also have "\<dots> = Some ?done"
    using sock cleared again by (simp add: onMessage_def receive_def [symmetric] onTimeout_def)
  finally have ran: "run hello_events (newRelayServer test_config) = Some ?done" .
  with first have once: "length (written (exchanges ?done 0)) \<le> 1" by simp
  have shown: "delivered hello_response
       = \<lparr>statusCode = 200, outHeaders = [(''content-type'', ''text/plain'')],
           content = Binary [72, 105]\<rparr>"
    by (simp add: delivered_def hello_response_def truthy_def base64_decode_def b64_value_def
        List.map_filter_def to_int32_def)
  from ran once pend blank ok answer shown timer late show ?thesis by simp
qed

text \<open>
  C2. The claim fails at a first response frame that \<open>writeHead\<close> refuses, such as one
  whose status is not between 100 and 999. For a pending id whose caller has not been
  answered, \<open>handleTunnelResponse\<close> cancels the timeout, removes the entry and throws, and
  the listener goes on with nothing written to the caller: the frame is not delivered,
  and neither the timeout nor a later frame with that id can answer the caller any more.
\<close>

theorem refused_response_unanswered:
  assumes "map_of (pendingRequests st) (rs_id r) = Some p"
    and "written (exchanges st (res p)) = []"
    and "\<not> accepted (req (exchanges st (res p))) r"
  shows "handleTunnelResponse r st =
           Thrown (st\<lparr>timeouts := AList.delete (timeout p) (timeouts st),
                       pendingRequests := AList.delete (rs_id r) (pendingRequests st)\<rparr>)
       \<and> written (exchanges (receive r st) (res p)) = []
       \<and> map_of (pendingRequests (receive r st)) (rs_id r) = None
       \<and> map_of (timeouts (receive r st)) (timeout p) = None"
proof -
  from assms have "handleTunnelResponse r st =
           Thrown (st\<lparr>timeouts := AList.delete (timeout p) (timeouts st),
                       pendingRequests := AList.delete (rs_id r) (pendingRequests st)\<rparr>)"
    by (rule handleTunnelResponse_thrown)
  moreover from assms have "written (exchanges (receive r st) (res p)) = []"
    by (simp add: handleTunnelResponse_first)
  moreover have "map_of (pendingRequests (receive r st)) (rs_id r) = None"
    by (rule handleTunnelResponse_forgets)
  moreover from assms(1,2) have "map_of (timeouts (receive r st)) (timeout p) = None"
    by (rule handleTunnelResponse_first(1))
  ultimately show ?thesis by simp
qed

text \<open>
  The agent \<open>myapp\<close> is attached and the request \<open>id-1\<close> is pending with nothing written. A
  response frame with the id \<open>id-1\<close> and the status 99 arrives and is refused. Then the
  timer of the request is asked to fire and a well-formed frame with the same id arrives:
  they change nothing, and the caller is never answered.
\<close>

theorem refused_response_unanswered_witness:
  "map_of (pendingRequests awaiting) (rs_id bad_response) = Some \<lparr>res = 0, timeout = 1\<rparr>
   \<and> written (exchanges awaiting 0) = []
   \<and> timeouts awaiting = [(1, 30000, ''id-1'')]
   \<and> \<not> accepted (req (exchanges awaiting 0)) bad_response
   \<and> handleTunnelResponse bad_response awaiting
       = Thrown (awaiting\<lparr>timeouts := [], pendingRequests := []\<rparr>)
   \<and> written (exchanges (awaiting\<lparr>timeouts := [], pendingRequests := []\<rparr>) 0) = []
   \<and> run unanswered_events (newRelayServer test_config)
       = Some (awaiting\<lparr>timeouts := [], pendingRequests := []\<rparr>)"
proof -
  let ?p = "\<lparr>res = 0, timeout = 1\<rparr>"
  let ?left = "awaiting\<lparr>timeouts := [], pendingRequests := []\<rparr>"
  have pend: "map_of (pendingRequests awaiting) (rs_id bad_response) = Some ?p"
    and blank: "written (exchanges awaiting (res ?p)) = []"
    and timer: "timeouts awaiting = [(1, 30000, ''id-1'')]"
    by (simp_all add: awaiting_state bad_response_def REQUEST_TIMEOUT_def)
  have refused: "\<not> accepted (req (exchanges awaiting (res ?p))) bad_response"
    by (simp add: accepted_def bad_response_def writeHead_throws_def to_int32_def)
  from refused_response_unanswered [OF pend blank refused]
  have "handleTunnelResponse bad_response awaiting
       = Thrown (awaiting\<lparr>timeouts := AList.delete (timeout ?p) (timeouts awaiting),
                          pendingRequests := AList.delete (rs_id bad_response) (pendingRequests awaiting)\<rparr>)"
    by simp
  then have thrown: "handleTunnelResponse bad_response awaiting = Thrown ?left"
    by (simp add: awaiting_state bad_response_def REQUEST_TIMEOUT_def)
  then have left: "receive bad_response awaiting = ?left"
    by (simp add: receive_def)
  have silent: "written (exchanges ?left 0) = []"
    using blank by simp
  have sock: "0 < socketCount awaiting" "0 < socketCount ?left"
    by (simp_all add: awaiting_state)
  have late: "receive hello_response ?left = ?left"
    by (rule handleTunnelResponse_miss) (simp add: hello_response_def)
  have "run unanswered_events (newRelayServer test_config)
          = run [Message 0 (Some (TunnelResponseMsg bad_response)), TimeoutFired 1,
                 Message 0 (Some (TunnelResponseMsg hello_response))] awaiting"
    using run_append [of "[Upgrade (handshake ''sk_test_key_123'' (Some ''myapp'')) (Some ''/tunnel'') True zero_rng,
        HttpRequest hello_request, End 0 ''id-1'']" _ "newRelayServer test_config"]
    by (simp add: unanswered_events_def hello_run_prefix del: run.simps)
  also have "\<dots> = Some ?left"
    using sock left late by (simp add: onMessage_def receive_def [symmetric] onTimeout_def)
  finally have ran: "run unanswered_events (newRelayServer test_config) = Some ?left" .
  from pend blank timer refused thrown silent ran show ?thesis by simp
qed

section \<open>Status codes of the relay\<close>

lemma appends_refl [simp]: "appends S st st"
  by (simp add: appends_def)

lemma appends_same: "same_requests st st' \<Longrightarrow> config st' = config st \<Longrightarrow> appends S st st'"
  by (simp add: appends_def same_requests_def)

lemma appends_trans:
  assumes "appends S a b" and "appends S b c"
  shows "appends S a c"
proof -
  have "\<exists>ws. written (exchanges c i) = written (exchanges a i) @ ws
               \<and> statusCode ` set ws \<subseteq> S \<and> req (exchanges c i) = req (exchanges a i)" for i
  proof -
    from assms(1) obtain us where us: "written (exchanges b i) = written (exchanges a i) @ us"
      "statusCode ` set us \<subseteq> S" "req (exchanges b i) = req (exchanges a i)"
      unfolding appends_def by blast
    from assms(2) obtain vs where vs: "written (exchanges c i) = written (exchanges b i) @ vs"
      "statusCode ` set vs \<subseteq> S" "req (exchanges c i) = req (exchanges b i)"
      unfolding appends_def by blast
    from us vs have "written (exchanges c i) = written (exchanges a i) @ (us @ vs)"
      "statusCode ` set (us @ vs) \<subseteq> S" "req (exchanges c i) = req (exchanges a i)"
      by auto
    then show ?thesis by blast
  qed
  with assms show ?thesis by (simp add: appends_def)
qed

lemma appends_mono: "appends S a b \<Longrightarrow> S \<subseteq> T \<Longrightarrow> appends T a b"
  unfolding appends_def by (meson order_trans)

lemma appends_update:
  assumes "written (f (exchanges st i)) = written (exchanges st i)"
    and "req (f (exchanges st i)) = req (exchanges st i)"
  shows "appends S st (update_exchange i f st)"
  using assms by (simp add: appends_def update_exchange_def)

lemma appends_write:
  assumes "statusCode w \<in> S"
  shows "appends S st (update_exchange i (\<lambda>x. x\<lparr>written := written x @ [w]\<rparr>) st)"
  using assms by (simp add: appends_def update_exchange_def)

lemma appends_respond: "code \<in> S \<Longrightarrow> appends S st (respond i code hs data st)"
  unfolding respond_def by (rule appends_write) simp

lemma config_removeTunnel [simp]: "config (removeTunnel s st) = config st"
  by (simp add: removeTunnel_def relay_defs Let_def split: option.splits)

lemma appends_removeTunnel [simp]: "appends S st (removeTunnel s st)"
  by (rule appends_same) simp_all

lemma appends_onData: "appends {413} st (onData i c st)"
proof (cases "i < exchangeCount st \<and> phase (exchanges st i) = Reading")
  case False
  then show ?thesis by (auto simp: onData_def)
next
  case True
  show ?thesis
  proof (cases "bodySize (exchanges st i) + length c \<le> MAX_BODY_SIZE")
    case fits: True
    with True show ?thesis by (simp add: onData_accept appends_update)
  next
    case False
    with True show ?thesis
      by (simp add: onData_reject appends_def update_exchange_def too_large_def)
  qed
qed

lemma appends_onEnd: "appends {} st (onEnd i uuid st)"
  by (simp add: onEnd_def appends_def relay_defs Let_def)

lemma appends_onError: "appends {500} st (onError i st)"
  by (simp add: onError_def appends_def relay_defs Let_def)

lemma appends_onTimeout: "appends {504} st (onTimeout h st)"
  by (auto simp: onTimeout_def appends_def relay_defs Let_def split: option.splits)

lemma appends_handleTunnelResponse: "appends {nat (to_int32 (rs_status r))} st (receive r st)"
  by (auto simp: receive_def handleTunnelResponse_def appends_def relay_defs Let_def
      split: option.splits)

lemma appends_onMessage:
  "\<not> forwarding (Message w msg) \<Longrightarrow> appends {} st (onMessage w msg st)"
proof (cases msg)
  case None
  then show ?thesis by (simp add: onMessage_def)
next
  case (Some m)
  assume "\<not> forwarding (Message w msg)"
  with Some show ?thesis
    by (cases m) (auto simp: onMessage_def appends_def Let_def split: option.splits)
qed

lemma config_same_close_all [simp]:
  "config (fold (\<lambda>(k, conn) s. ws_close (ws conn) (clearInterval (heartbeat conn) s)) ts st)
     = config st"
  by (induction ts arbitrary: st) (auto simp: relay_defs)

lemma appends_drain:
  "appends {503} st
     (fold (\<lambda>(k, pending) s.
              let s1 = clearTimeout (timeout pending) s
              in if \<not> writableEnded s1 (res pending)
                 then respond (res pending) 503 [] (Text ''Server shutting down'') s1
                 else s1) ps st)"
proof (induction ps arbitrary: st)
  case Nil
  show ?case by simp
next
  case (Cons x ps)
  obtain k p where x: "x = (k, p)" by (cases x)
  let ?s2 = "let s1 = clearTimeout (timeout p) st
             in if \<not> writableEnded s1 (res p)
                then respond (res p) 503 [] (Text ''Server shutting down'') s1 else s1"
  have "appends {503} st ?s2"
    by (simp add: appends_def relay_defs Let_def)
  from appends_trans [OF this Cons.IH] x show ?case by simp
qed

lemma appends_stop: "appends {503} st (stop st)"
proof -
  let ?st2 = "fold (\<lambda>(k, conn) s. ws_close (ws conn) (clearInterval (heartbeat conn) s))
                (tunnels st) st\<lparr>tunnels := []\<rparr>"
  have "same_requests st ?st2"
    using same_close_all [of st "tunnels st"] by (simp add: same_requests_def)
  then have 1: "appends {503} st ?st2" by (rule appends_same) simp
  have 2: "appends {503} ?st2 (fold (\<lambda>(k, pending) s.
              let s1 = clearTimeout (timeout pending) s
              in if \<not> writableEnded s1 (res pending)
                 then respond (res pending) 503 [] (Text ''Server shutting down'') s1
                 else s1) (pendingRequests ?st2) ?st2)"
    by (rule appends_drain)
  from appends_trans [OF 1 2] show ?thesis
    by (simp add: stop_def Let_def appends_def)
qed

lemma config_register [simp]: "config (register l st) = config st"
  by (simp add: register_def relay_defs Let_def)

lemma appends_onUpgrade:
  "onUpgrade rq parsed completes rng st = Some (out, st') \<Longrightarrow> appends {} st st'"
  by (rule appends_same [OF same_onUpgrade])
     (auto simp: onUpgrade_def handleWebSocketConnection_def split: if_splits option.splits)

lemma config_onClose [simp]: "config (onClose w st) = config st"
  by (simp add: onClose_def relay_defs)

lemma config_onSocketError [simp]: "config (onSocketError w st) = config st"
  by (simp add: onSocketError_def)

lemma config_onHeartbeat [simp]: "config (onHeartbeat h st) = config st"
  by (simp add: onHeartbeat_def relay_defs Let_def split: option.splits prod.splits)

text \<open>Every event but a new request adds responses to the exchanges that exist.\<close>

lemma appends_step:
  assumes "step e st = Some st'" and "\<not> forwarding e" and "\<forall>rq. e \<noteq> HttpRequest rq"
  shows "appends (statuses_of e) st st'"
proof (cases e)
  case (Upgrade rq parsed completes rng)
  with assms(1) obtain out where "onUpgrade rq parsed completes rng st = Some (out, st')"
    by (auto split: option.splits if_splits)
  then have "appends {} st st'" by (rule appends_onUpgrade)
  with Upgrade show ?thesis by simp
next
  case (Message w msg)
  with assms show ?thesis by (auto simp: appends_onMessage)
qed (use assms in \<open>auto simp: appends_onData appends_onEnd appends_onError appends_onTimeout
      appends_stop intro: appends_same\<close>)

lemma new_writes_appends:
  assumes "appends S st st'" and "i < exchangeCount st"
  shows "statusCode ` set (new_writes st st' i) \<subseteq> S"
    and "take (length (written (exchanges st i))) (written (exchanges st' i))
           = written (exchanges st i)"
proof -
  from assms(1) obtain ws where "written (exchanges st' i) = written (exchanges st i) @ ws"
    "statusCode ` set ws \<subseteq> S" unfolding appends_def by blast
  with assms(2) show "statusCode ` set (new_writes st st' i) \<subseteq> S"
    and "take (length (written (exchanges st i))) (written (exchanges st' i))
           = written (exchanges st i)"
    by (simp_all add: new_writes_def)
qed


lemma handleHttpRequest_frame:
  "exchangeCount (handleHttpRequest rq st) = Suc (exchangeCount st)"
  "config (handleHttpRequest rq st) = config st"
  "req (exchanges (handleHttpRequest rq st) (exchangeCount st)) = rq"
  "j \<noteq> exchangeCount st \<Longrightarrow> exchanges (handleHttpRequest rq st) j = exchanges st j"
  by (simp_all add: handleHttpRequest_def operational_def relay_defs removeTunnel_def Let_def
      split: option.splits)

lemma extractSubdomain_config:
  "config st' = config st \<Longrightarrow> extractSubdomain st' host = extractSubdomain st host"
  by (simp add: extractSubdomain_def)

lemma new_writes_handleHttpRequest:
  assumes "i < exchangeCount (handleHttpRequest rq st)" and "proxied (handleHttpRequest rq st) i"
  shows "statusCode ` set (new_writes st (handleHttpRequest rq st) i) \<subseteq> {404, 502}"
proof (cases "i = exchangeCount st")
  case False
  with assms(1) have "i < exchangeCount st" by (simp add: handleHttpRequest_frame)
  with False show ?thesis by (simp add: new_writes_def handleHttpRequest_frame)
next
  case True
  let ?st = "open_exchange rq st"
  from assms(2) True obtain s
    where s: "extractSubdomain st (or_default (header_string rq ''host'') []) = Some s"
      "s \<noteq> []" "s \<noteq> ''tunnel''"
    by (auto simp: proxied_def handleHttpRequest_frame
        extractSubdomain_config [of "handleHttpRequest rq st" st] split: option.splits)
  have fresh: "written (exchanges ?st (exchangeCount st)) = []"
    by (simp add: open_exchange_def)
  have "statusCode ` set (written (exchanges (handleHttpRequest rq st) (exchangeCount st)))
          \<subseteq> {404, 502}"
    unfolding handleHttpRequest_routed [OF s]
    using fresh by (auto simp: relay_defs split: option.splits)
  with True show ?thesis by (simp add: new_writes_def)
qed

text \<open>
  C9, as amended. Take a step of the relay that does not forward a response frame of the
  agent, and an exchange whose Host header selects a tunnel label (neither empty nor
  \<open>tunnel\<close>). Every response the step writes to that exchange has a status code among
  those of the event's handler: 404 or 502 for a new request, 413 for a body chunk, 500
  for an error of the request stream, 504 for a timeout, 503 for the shutdown, none
  otherwise. So a status code that the relay writes by itself is one of 404, 413, 500,
  502, 503, 504. A step only adds to what was written before.
\<close>

theorem relay_status_codes:
  assumes "step e st = Some st'" and "\<not> forwarding e"
    and "i < exchangeCount st'" and "proxied st' i"
  shows "statusCode ` set (new_writes st st' i) \<subseteq> statuses_of e
       \<and> statuses_of e \<subseteq> {404, 413, 500, 502, 503, 504}
       \<and> (i < exchangeCount st \<longrightarrow>
            take (length (written (exchanges st i))) (written (exchanges st' i))
              = written (exchanges st i))"
proof (cases "\<exists>rq. e = HttpRequest rq")
  case True
  then obtain rq where e: "e = HttpRequest rq" by blast
  with assms(1) have st': "st' = handleHttpRequest rq st" by simp
  with assms(3,4) have "statusCode ` set (new_writes st st' i) \<subseteq> {404, 502}"
    by (simp add: new_writes_handleHttpRequest)
  moreover have "i < exchangeCount st \<longrightarrow> exchanges st' i = exchanges st i"
    using st' by (simp add: handleHttpRequest_frame)
  ultimately show ?thesis using e by simp
next
  case False
  with assms(1,2) have app: "appends (statuses_of e) st st'"
    by (intro appends_step) simp_all
  then have "exchangeCount st' = exchangeCount st" by (simp add: appends_def)
  with assms(3) have i: "i < exchangeCount st" by simp
  have "statuses_of e \<subseteq> {404, 413, 500, 502, 503, 504}"
    by (cases e) simp_all
  with new_writes_appends [OF app i] show ?thesis by simp
qed

lemma hello_hostname:
  "hostname_of hello_request = ''myapp'' @ ''.'' @ domain (config (newRelayServer test_config))"
  by (simp add: hostname_of_def hello_request_def public_request_def header_string_def
      or_default_def split_colon_first_def newRelayServer_def test_config_def)

lemma hello_proxied:
  "proxied (onError 0 (handleHttpRequest hello_request (register ''myapp'' (newRelayServer test_config)))) 0"
proof -
  let ?st = "onError 0 (handleHttpRequest hello_request (register ''myapp'' (newRelayServer test_config)))"
  have r: "req (exchanges ?st 0) = hello_request"
    by (simp add: onError_def hello_routed relay_defs myapp_registered Let_def)
  have c: "config ?st = config (newRelayServer test_config)"
    by (simp add: onError_def hello_routed relay_defs Let_def)
  have "split_colon_first (or_default (header_string hello_request ''host'') [])
          = ''myapp'' @ ''.'' @ domain (config ?st)"
    using hello_hostname by (simp add: hostname_of_def c)
  then have "extractSubdomain ?st (or_default (header_string hello_request ''host'') []) = Some ''myapp''"
    by (rule extractSubdomain_label)
  with r show ?thesis by (simp add: proxied_def)
qed

lemma hello_failed:
  "written (exchanges (onError 0 (handleHttpRequest hello_request
              (register ''myapp'' (newRelayServer test_config)))) 0)
     = [\<lparr>statusCode = 500, outHeaders = [], content = Text ''Request error''\<rparr>]"
  by (simp add: onError_def hello_routed relay_defs myapp_registered Let_def)

text \<open>An error of the request stream while the body of a proxied request is being read.\<close>

theorem relay_status_codes_witness:
  "step (RequestError 0)
        (handleHttpRequest hello_request (register ''myapp'' (newRelayServer test_config)))
     = Some (onError 0 (handleHttpRequest hello_request
               (register ''myapp'' (newRelayServer test_config))))
   \<and> \<not> forwarding (RequestError 0)
   \<and> 0 < exchangeCount (onError 0 (handleHttpRequest hello_request
               (register ''myapp'' (newRelayServer test_config))))
   \<and> proxied (onError 0 (handleHttpRequest hello_request
               (register ''myapp'' (newRelayServer test_config)))) 0
   \<and> new_writes (handleHttpRequest hello_request (register ''myapp'' (newRelayServer test_config)))
         (onError 0 (handleHttpRequest hello_request
               (register ''myapp'' (newRelayServer test_config)))) 0
       = [\<lparr>statusCode = 500, outHeaders = [], content = Text ''Request error''\<rparr>]
   \<and> statusCode ` set (new_writes
         (handleHttpRequest hello_request (register ''myapp'' (newRelayServer test_config)))
         (onError 0 (handleHttpRequest hello_request
               (register ''myapp'' (newRelayServer test_config)))) 0)
       \<subseteq> {500}"
proof -
  let ?st = "handleHttpRequest hello_request (register ''myapp'' (newRelayServer test_config))"
  have step: "step (RequestError 0) ?st = Some (onError 0 ?st)" by simp
  have nf: "\<not> forwarding (RequestError 0)" by simp
  have count: "0 < exchangeCount (onError 0 ?st)"
    by (simp add: onError_def hello_routed relay_defs myapp_registered Let_def)
  have before: "written (exchanges ?st 0) = []" "0 < exchangeCount ?st"
    by (simp_all add: hello_routed relay_defs myapp_registered)
  with hello_failed have new: "new_writes ?st (onError 0 ?st) 0
       = [\<lparr>statusCode = 500, outHeaders = [], content = Text ''Request error''\<rparr>]"
    by (simp add: new_writes_def)
  from relay_status_codes [OF step nf count hello_proxied]
  have "statusCode ` set (new_writes ?st (onError 0 ?st) 0) \<subseteq> {500}" by simp
  with step nf count hello_proxied new show ?thesis by blast
qed

text \<open>
  The claim as written leaves out 500: the agent \<open>myapp\<close> attaches, a request for
  \<open>myapp.tunnel.test.local\<close> arrives, its stream fails, and the relay answers 500.
\<close>

theorem relay_status_codes_counterexample:
  "run [Upgrade (handshake ''sk_test_key_123'' (Some ''myapp'')) (Some ''/tunnel'') True zero_rng,
        HttpRequest hello_request, RequestError 0] (newRelayServer test_config)
     = Some (onError 0 (handleHttpRequest hello_request
               (register ''myapp'' (newRelayServer test_config))))
   \<and> hostname_of hello_request = ''myapp'' @ ''.'' @ domain (config (newRelayServer test_config))
   \<and> written (exchanges (onError 0 (handleHttpRequest hello_request
              (register ''myapp'' (newRelayServer test_config)))) 0)
     = [\<lparr>statusCode = 500, outHeaders = [], content = Text ''Request error''\<rparr>]
   \<and> (500::nat) \<notin> {404, 413, 502, 503, 504}"
proof -
  have "run [Upgrade (handshake ''sk_test_key_123'' (Some ''myapp'')) (Some ''/tunnel'') True zero_rng,
        HttpRequest hello_request, RequestError 0] (newRelayServer test_config)
     = Some (onError 0 (handleHttpRequest hello_request
               (register ''myapp'' (newRelayServer test_config))))"
    by (simp add: myapp_attached)
  with hello_hostname hello_failed show ?thesis by simp
qed

section \<open>Base64\<close>




lemma byte_of_unat: "(of_nat (unat (a :: 8 word)) :: 8 word) = a"
  by simp










section \<open>Tunnels refer to sockets that exist\<close>





lemma socketCount_removeTunnel [simp]: "socketCount (removeTunnel s st) = socketCount st"
  by (simp add: removeTunnel_def relay_defs Let_def split: option.splits)
























section \<open>The round trip\<close>



















section \<open>client/tunnel-client: close\<close>

lemma close_fields:
  "closed (close c) = True"
  "heartbeatInterval (close c) = None"
  "cl_ws (close c) = None"
  "emitted (close c) = emitted c @ [CloseEvent]"
  "cl_url (close c) = cl_url c"
  "cl_subdomain (close c) = cl_subdomain c"
  by (simp_all add: close_def emit_def Let_def split: option.splits)

lemma close_settled:
  assumes "closed c" and "heartbeatInterval c = None" and "cl_ws c = None"
  shows "close c = c\<lparr>emitted := emitted c @ [CloseEvent]\<rparr>"
  using assms by (simp add: close_def emit_def Let_def)

text \<open>
  C8, as amended. A second call of \<open>close\<close> leaves the closed flag, the heartbeat handle,
  the socket, the url and the subdomain as the first call left them, and emits one more
  \<open>close\<close> event: every call of \<open>close\<close> emits exactly one.
\<close>

theorem close_twice:
  "close (close c) = (close c)\<lparr>emitted := emitted c @ [CloseEvent, CloseEvent]\<rparr>
   \<and> emitted (close c) = emitted c @ [CloseEvent]
   \<and> closed (close (close c)) = closed (close c)
   \<and> heartbeatInterval (close (close c)) = heartbeatInterval (close c)
   \<and> cl_ws (close (close c)) = cl_ws (close c)
   \<and> cl_sockets (close (close c)) = cl_sockets (close c)
   \<and> cl_intervals (close (close c)) = cl_intervals (close c)
   \<and> cl_url (close (close c)) = cl_url (close c)
   \<and> cl_subdomain (close (close c)) = cl_subdomain (close c)"
proof -
  have "close (close c) = (close c)\<lparr>emitted := emitted (close c) @ [CloseEvent]\<rparr>"
    by (rule close_settled) (simp_all add: close_fields)
  then have twice: "close (close c) = (close c)\<lparr>emitted := emitted c @ [CloseEvent, CloseEvent]\<rparr>"
    by (simp add: close_fields)
  show ?thesis
    by (subst (1 2 3 4 5 6 7 8) twice) (simp add: close_fields)
qed

text \<open>
  The claim as written fails: after two calls the listeners have seen two \<open>close\<close> events,
  after one call one.
\<close>

theorem close_twice_counterexample:
  "emitted (close test_agent) = [CloseEvent]
   \<and> emitted (close (close test_agent)) = [CloseEvent, CloseEvent]
   \<and> emitted (close (close test_agent)) \<noteq> emitted (close test_agent)"
  by (simp add: close_def emit_def test_agent_def Let_def)

end
